theory Spec2Isabelle
  imports Main "HOL-Library.Word"
begin

section \<open>Errors\<close>

text \<open>
  Go's \<open>error\<close> values that the package produces or inspects: \<open>io.EOF\<close>, the range and
  syntax errors of \<open>strconv\<close>, an opaque error with a message, and an error wrapped by
  \<open>fmt.Errorf("...: %w", err)\<close>. A nil error is \<open>None\<close>.
\<close>

datatype error =
    EOF
  | ErrRange
  | ErrSyntax
  | Err string
  | Wrap string error

section \<open>The attribute parser (src/attr.go)\<close>

record attributes =
  ttl :: int
  maxRows :: int

definition is_digit :: "char \<Rightarrow> bool" where
  "is_digit c = (c \<in> set ''0123456789'')"

definition digit_val :: "char \<Rightarrow> nat" where
  "digit_val c = of_char c - 48"

definition digits_value :: "string \<Rightarrow> nat" where
  "digits_value ds = foldl (\<lambda>n c. n * 10 + digit_val c) 0 ds"

text \<open>
  \<open>strconv.Atoi\<close> on a platform whose \<open>int\<close> has 64 bits: an optional sign and a run of
  decimal digits. Anything else is a syntax error with value 0; a value outside the
  range of \<open>int\<close> is a range error with the nearest bound as value.
\<close>

definition Atoi :: "string \<Rightarrow> int \<times> error option" where
  "Atoi s =
     (let neg = (s \<noteq> [] \<and> hd s = CHR ''-'');
          ds = (if s \<noteq> [] \<and> (hd s = CHR ''-'' \<or> hd s = CHR ''+'') then tl s else s)
      in if ds = [] \<or> \<not> list_all is_digit ds then (0, Some ErrSyntax)
         else let v = int (digits_value ds)
              in if neg then (if v > 2 ^ 63 then (- (2 ^ 63), Some ErrRange) else (- v, None))
                 else (if v \<ge> 2 ^ 63 then (2 ^ 63 - 1, Some ErrRange) else (v, None)))"

text \<open>
  \<open>attrRegexp = (@cache-ttl|@cache-max-rows) (\d+)\<close>. Go's regexp package finds the
  leftmost match and, at one position, prefers the first alternative and the longest
  digit run. \<open>match_directive name s\<close> matches one alternative at the start of \<open>s\<close> and
  returns the submatches (whole match, group 1, group 2) with the text after the match.
\<close>

fun strip_prefix :: "string \<Rightarrow> string \<Rightarrow> string option" where
  "strip_prefix [] s = Some s"
| "strip_prefix (p # ps) [] = None"
| "strip_prefix (p # ps) (c # cs) = (if p = c then strip_prefix ps cs else None)"

definition match_directive :: "string \<Rightarrow> string \<Rightarrow> (string list \<times> string) option" where
  "match_directive name s =
     (case strip_prefix name s of
        None \<Rightarrow> None
      | Some r \<Rightarrow>
          (case r of
             [] \<Rightarrow> None
           | c # r' \<Rightarrow>
               if c \<noteq> CHR '' '' then None
               else let ds = takeWhile is_digit r'
                    in if ds = [] then None
                       else Some ([name @ '' '' @ ds, name, ds], dropWhile is_digit r')))"

definition match_here :: "string \<Rightarrow> (string list \<times> string) option" where
  "match_here s =
     (case match_directive ''@cache-ttl'' s of
        Some m \<Rightarrow> Some m
      | None \<Rightarrow> match_directive ''@cache-max-rows'' s)"

lemma strip_prefix_length:
  "strip_prefix p s = Some r \<Longrightarrow> length s = length p + length r"
  by (induction p s rule: strip_prefix.induct) (auto split: if_splits)

lemma match_directive_shorter:
  assumes "match_directive name s = Some (m, rest)"
  shows "length rest < length s"
proof -
  from assms obtain r c r' where r: "strip_prefix name s = Some r" "r = c # r'"
    and rest: "rest = dropWhile is_digit r'"
    by (auto simp: match_directive_def Let_def split: option.splits list.splits if_splits)
  have "length rest \<le> length r'"
    unfolding rest by (rule length_dropWhile_le)
  with strip_prefix_length [OF r(1)] r(2) show ?thesis by simp
qed

lemma match_here_shorter:
  "match_here s = Some (m, rest) \<Longrightarrow> length rest < length s"
  by (auto simp: match_here_def split: option.splits dest: match_directive_shorter)

text \<open>
  \<open>attrRegexp.FindAllStringSubmatch(query, n)\<close> for \<open>n \<ge> 0\<close>: the first \<open>n\<close> successive
  non-overlapping matches, each as its list of submatches. The search resumes where the
  previous match ended.
\<close>

function FindAllStringSubmatch :: "string \<Rightarrow> nat \<Rightarrow> string list list" where
  "FindAllStringSubmatch s n =
     (if n = 0 then []
      else case match_here s of
             Some (m, rest) \<Rightarrow> m # FindAllStringSubmatch rest (n - 1)
           | None \<Rightarrow> (case s of [] \<Rightarrow> [] | c # cs \<Rightarrow> FindAllStringSubmatch cs n))"
  by pat_completeness auto
termination
  by (relation "measure (\<lambda>(s, n). length s)") (auto dest: match_here_shorter)

declare FindAllStringSubmatch.simps [simp del]

fun attrs_loop :: "string list list \<Rightarrow> attributes \<Rightarrow> attributes option" where
  "attrs_loop [] attrs = Some attrs"
| "attrs_loop (match # ms) attrs =
     (if length match \<noteq> 3 then None
      else if match ! 1 = ''@cache-ttl''
        then attrs_loop ms (attrs\<lparr>ttl := fst (Atoi (match ! 2))\<rparr>)
      else if match ! 1 = ''@cache-max-rows''
        then attrs_loop ms (attrs\<lparr>maxRows := fst (Atoi (match ! 2))\<rparr>)
      else attrs_loop ms attrs)"

definition getAttrs :: "string \<Rightarrow> attributes option" where
  "getAttrs query =
     (let matches = FindAllStringSubmatch query 2
      in if length matches \<noteq> 2 then None
         else attrs_loop matches \<lparr>ttl = 0, maxRows = 0\<rparr>)"

text \<open>
  A directive \<open>name <integer>\<close> is present in a text when the text has a position where
  the name, one space and at least one decimal digit follow each other.
\<close>

fun directive_present :: "string \<Rightarrow> string \<Rightarrow> bool" where
  "directive_present name [] = False"
| "directive_present name (c # cs) =
     (match_directive name (c # cs) \<noteq> None \<or> directive_present name cs)"

section \<open>Cache items (package cache, src/unnamed/part_002)\<close>

text \<open>\<open>driver.Value\<close>: the values a driver hands to \<open>database/sql\<close>.\<close>

datatype driver_value = VNil | VInt int | VBool bool | VString string

record NamedValue =
  Name :: string
  Ordinal :: int
  Value :: driver_value

text \<open>\<open>cache.Item\<close>. A nil slice and an empty slice are both the empty list.\<close>

record Item =
  Cols :: "string list"
  Rows :: "driver_value list list"

text \<open>Go's built-in \<open>copy(dst, src)\<close>: the first \<open>min(len(dst), len(src))\<close> elements.\<close>

definition go_copy :: "'a list \<Rightarrow> 'a list \<Rightarrow> 'a list" where
  "go_copy dst src = (let n = min (length dst) (length src) in take n src @ drop n dst)"

section \<open>The wrapped driver's cursor\<close>

text \<open>
  A live \<open>driver.Rows\<close> of the wrapped driver, given by what it will do: its column
  names, for each coming call of \<open>Next(dest)\<close> the contents of \<open>dest\<close> when the call
  returns together with the error returned, and the error of \<open>Close\<close>. Once the listed
  calls are used up, \<open>Next\<close> returns \<open>io.EOF\<close> and leaves \<open>dest\<close> alone.
\<close>

record driver_rows =
  dr_columns :: "string list"
  dr_pending :: "(driver_value list \<times> error option) list"
  dr_close :: "error option"

definition dr_Next ::
  "driver_rows \<Rightarrow> driver_value list \<Rightarrow> driver_rows \<times> driver_value list \<times> error option" where
  "dr_Next d dest =
     (case dr_pending d of
        [] \<Rightarrow> (d, dest, Some EOF)
      | (vs, e) # rest \<Rightarrow> (d\<lparr>dr_pending := rest\<rparr>, vs, e))"

text \<open>
  The result of \<open>conn.QueryContext\<close>. By the driver's contract a nil error comes with a
  cursor; with an error the rows value (usually nil) is handed on as it is.
\<close>

datatype query_result =
    QueryRows driver_rows
  | QueryError "driver_rows option" error

section \<open>State of the interceptor (src/interceptor.go)\<close>

record Stats =
  Hits :: "64 word"
  Misses :: "64 word"
  Errors :: "64 word"

text \<open>
  The calls the interceptor makes to its collaborators, in order: the hash function, the
  cache backend, the error hook and the wrapped driver.
\<close>

datatype event =
    CallHashFunc string "NamedValue list"
  | CallGet string
  | CallSet string Item "64 word"
  | CallOnErr error
  | CallConnQuery string "NamedValue list"
  | CallStmtQuery "NamedValue list"

text \<open>
  \<open>c_Get\<close> and \<open>c_Set\<close> are the two methods of the \<open>cache.Cacher\<close> in field \<open>c\<close>; the
  item returned by \<open>Get\<close> is a pointer, \<open>None\<close> when nil. \<open>onErr\<close> tells whether the hook
  is set; a call of the hook is recorded in \<open>calls\<close>. \<open>time.Duration\<close> is an \<open>int64\<close> of
  nanoseconds.
\<close>

record Interceptor =
  c_Get :: "string \<Rightarrow> Item option \<times> bool \<times> error option"
  c_Set :: "string \<Rightarrow> Item \<Rightarrow> 64 word \<Rightarrow> error option"
  hashFunc :: "string \<Rightarrow> NamedValue list \<Rightarrow> string \<times> error option"
  onErr :: bool
  stats :: Stats
  disabled :: bool
  calls :: "event list"

definition record_call :: "event \<Rightarrow> Interceptor \<Rightarrow> Interceptor" where
  "record_call ev i = i\<lparr>calls := calls i @ [ev]\<rparr>"

definition add_Errors :: "Interceptor \<Rightarrow> Interceptor" where
  "add_Errors i = i\<lparr>stats := (stats i)\<lparr>Errors := Errors (stats i) + 1\<rparr>\<rparr>"

definition add_Misses :: "Interceptor \<Rightarrow> Interceptor" where
  "add_Misses i = i\<lparr>stats := (stats i)\<lparr>Misses := Misses (stats i) + 1\<rparr>\<rparr>"

definition add_Hits :: "Interceptor \<Rightarrow> Interceptor" where
  "add_Hits i = i\<lparr>stats := (stats i)\<lparr>Hits := Hits (stats i) + 1\<rparr>\<rparr>"

text \<open>\<open>if i.onErr != nil { i.onErr(fmt.Errorf(msg + ": %w", err)) }\<close>\<close>

definition call_onErr :: "string \<Rightarrow> error \<Rightarrow> Interceptor \<Rightarrow> Interceptor" where
  "call_onErr msg err i = (if onErr i then record_call (CallOnErr (Wrap msg err)) i else i)"

section \<open>The row-capture adapter rowsRecorder (src/unnamed/part_000)\<close>

record rowsRecorder =
  item :: Item
  setter :: "Item \<Rightarrow> Interceptor \<Rightarrow> Interceptor"
  gotErr :: bool
  gotEOF :: bool
  maxRowsHit :: bool
  r_maxRows :: int
  dr :: driver_rows

definition newRowsRecorder ::
  "(Item \<Rightarrow> Interceptor \<Rightarrow> Interceptor) \<Rightarrow> driver_rows \<Rightarrow> int \<Rightarrow> rowsRecorder" where
  "newRowsRecorder setter' rows maxRows' =
     \<lparr>item = \<lparr>Cols = [], Rows = []\<rparr>, setter = setter', gotErr = False, gotEOF = False,
      maxRowsHit = False, r_maxRows = maxRows', dr = rows\<rparr>"

definition rr_Columns :: "rowsRecorder \<Rightarrow> rowsRecorder \<times> string list" where
  "rr_Columns r =
     (let r' = r\<lparr>item := (item r)\<lparr>Cols := dr_columns (dr r)\<rparr>\<rparr>
      in (r', Cols (item r')))"

definition rr_Close ::
  "rowsRecorder \<Rightarrow> Interceptor \<Rightarrow> rowsRecorder \<times> Interceptor \<times> error option" where
  "rr_Close r i =
     (case dr_close (dr r) of
        Some err \<Rightarrow> (r\<lparr>gotErr := True\<rparr>, i, Some err)
      | None \<Rightarrow>
          if gotEOF r \<and> \<not> gotErr r \<and> \<not> maxRowsHit r
          then (r, setter r (item r) i, None)
          else (r, i, None))"

definition rr_Next ::
  "rowsRecorder \<Rightarrow> driver_value list \<Rightarrow> rowsRecorder \<times> driver_value list \<times> error option" where
  "rr_Next r dest =
     (case dr_Next (dr r) dest of (d', dest', err) \<Rightarrow>
        let r1 = r\<lparr>dr := d'\<rparr>;
            r2 = (case err of
                    None \<Rightarrow> r1
                  | Some e \<Rightarrow> if e = EOF then r1\<lparr>gotEOF := True\<rparr> else r1\<lparr>gotErr := True\<rparr>)
        in if gotEOF r2 \<or> gotErr r2 \<or> maxRowsHit r2 then (r2, dest', err)
           else if int (length (Rows (item r2))) = r_maxRows r2
             then (r2\<lparr>maxRowsHit := True\<rparr>, dest', err)
           else (r2\<lparr>item := (item r2)\<lparr>Rows := Rows (item r2) @ [dest']\<rparr>\<rparr>, dest', err))"

section \<open>The cached row cursor rowsCached (src/unnamed/part_007)\<close>

text \<open>A call that dereferences a nil pointer panics.\<close>

datatype 'a may_panic = Panic | Returns 'a

record rowsCached =
  rc_Item :: "Item option"
  ptr :: nat

definition rc_Columns :: "rowsCached \<Rightarrow> string list may_panic" where
  "rc_Columns r = (case rc_Item r of None \<Rightarrow> Panic | Some it \<Rightarrow> Returns (Cols it))"

definition rc_Next ::
  "rowsCached \<Rightarrow> driver_value list \<Rightarrow> (rowsCached \<times> driver_value list \<times> error option) may_panic" where
  "rc_Next r dest =
     (case rc_Item r of
        None \<Rightarrow> Panic
      | Some it \<Rightarrow>
          if ptr r \<ge> length (Rows it) then Returns (r, dest, Some EOF)
          else Returns (r\<lparr>ptr := ptr r + 1\<rparr>, go_copy dest (Rows it ! ptr r), None))"

definition rc_Close :: "rowsCached \<Rightarrow> error option" where
  "rc_Close r = None"

section \<open>The interceptor (src/interceptor.go)\<close>

text \<open>The \<open>driver.Rows\<close> the interceptor returns: nil, the live cursor, or one of its own cursors.\<close>

datatype driver_Rows =
    NilRows
  | LiveRows driver_rows
  | CachedRows rowsCached
  | RecorderRows rowsRecorder

definition checkCache :: "Interceptor \<Rightarrow> string \<Rightarrow> Interceptor \<times> rowsCached option" where
  "checkCache i hash =
     (case c_Get i hash of (item', ok, err) \<Rightarrow>
        (let i1 = record_call (CallGet hash) i
         in (case err of
               Some e \<Rightarrow> (call_onErr ''Cache.Get failed: '' e (add_Errors i1), None)
             | None \<Rightarrow>
                 if \<not> ok then (add_Misses i1, None)
                 else (add_Hits i1, Some \<lparr>rc_Item = item', ptr = 0\<rparr>))))"

text \<open>
  The closure \<open>cacheSetter\<close>, with the variables it captures (\<open>hash\<close>, \<open>attrs\<close>) as
  arguments. \<open>time.Duration(attrs.ttl) * time.Second\<close> is a product of \<open>int64\<close> values.
\<close>

definition ttl_duration :: "attributes \<Rightarrow> 64 word" where
  "ttl_duration attrs = word_of_int (ttl attrs) * 1000000000"

definition cacheSetter :: "string \<Rightarrow> attributes \<Rightarrow> Item \<Rightarrow> Interceptor \<Rightarrow> Interceptor" where
  "cacheSetter hash attrs item' i =
     (let i1 = record_call (CallSet hash item' (ttl_duration attrs)) i
      in case c_Set i hash item' (ttl_duration attrs) of
           None \<Rightarrow> i1
         | Some err \<Rightarrow> call_onErr ''Cache.Set failed: '' err (add_Errors i1))"

definition rows_of :: "query_result \<Rightarrow> driver_Rows" where
  "rows_of res =
     (case res of
        QueryRows d \<Rightarrow> LiveRows d
      | QueryError None err \<Rightarrow> NilRows
      | QueryError (Some d) err \<Rightarrow> LiveRows d)"

definition err_of :: "query_result \<Rightarrow> error option" where
  "err_of res = (case res of QueryRows d \<Rightarrow> None | QueryError rows err \<Rightarrow> Some err)"

text \<open>
  \<open>ConnQueryContext\<close> and \<open>StmtQueryContext\<close> have the same body and differ only in the
  call of the wrapped driver: \<open>conn.QueryContext(ctx, query, args)\<close> for the first,
  \<open>conn.QueryContext(ctx, args)\<close> for the second. \<open>queryContext\<close> is that body; \<open>ev\<close> and
  \<open>live\<close> are the driver call and what it returns.
\<close>

definition queryContext ::
  "Interceptor \<Rightarrow> event \<Rightarrow> query_result \<Rightarrow> string \<Rightarrow> NamedValue list
     \<Rightarrow> Interceptor \<times> driver_Rows \<times> error option" where
  "queryContext i ev live query args =
     (if disabled i then (record_call ev i, rows_of live, err_of live)
      else case getAttrs query of
        None \<Rightarrow> (record_call ev i, rows_of live, err_of live)
      | Some attrs \<Rightarrow>
          (case hashFunc i query args of (hash, err) \<Rightarrow>
             (let i1 = record_call (CallHashFunc query args) i
              in (case err of
                    Some e \<Rightarrow>
                      (record_call ev (call_onErr ''HashFunc failed: '' e (add_Errors i1)),
                       rows_of live, err_of live)
                  | None \<Rightarrow>
                      (case checkCache i1 hash of
                         (i2, Some cached) \<Rightarrow> (i2, CachedRows cached, None)
                       | (i2, None) \<Rightarrow>
                           (case live of
                              QueryError rows err' \<Rightarrow> (record_call ev i2, rows_of live, Some err')
                            | QueryRows rows \<Rightarrow>
                                (record_call ev i2,
                                 RecorderRows
                                   (newRowsRecorder (cacheSetter hash attrs) rows (maxRows attrs)),
                                 None)))))))"

definition ConnQueryContext ::
  "Interceptor \<Rightarrow> (string \<Rightarrow> NamedValue list \<Rightarrow> query_result) \<Rightarrow> string \<Rightarrow> NamedValue list
     \<Rightarrow> Interceptor \<times> driver_Rows \<times> error option" where
  "ConnQueryContext i conn query args =
     queryContext i (CallConnQuery query args) (conn query args) query args"

definition StmtQueryContext ::
  "Interceptor \<Rightarrow> (NamedValue list \<Rightarrow> query_result) \<Rightarrow> string \<Rightarrow> NamedValue list
     \<Rightarrow> Interceptor \<times> driver_Rows \<times> error option" where
  "StmtQueryContext i conn query args =
     queryContext i (CallStmtQuery args) (conn args) query args"

section \<open>The default key function (src/unnamed/part_002)\<close>





section \<open>Callers of the cursors\<close>

text \<open>
  A caller such as \<open>database/sql\<close> makes a sequence of \<open>Next\<close> and \<open>Columns\<close> calls on the
  cursor it was given and then closes it. \<open>rr_run\<close>, \<open>dr_run\<close> and \<open>rc_run\<close> make such a
  sequence of calls on a row-capture adapter, on a live cursor and on a cached cursor;
  they return the cursor afterwards and what each \<open>Next\<close> call handed back: the
  contents of \<open>dest\<close> and the error.
\<close>

datatype rows_call = DoNext "driver_value list" | DoColumns

fun rr_run ::
  "rowsRecorder \<Rightarrow> rows_call list \<Rightarrow> rowsRecorder \<times> (driver_value list \<times> error option) list" where
  "rr_run r [] = (r, [])"
| "rr_run r (DoNext dest # cs) =
     (case rr_Next r dest of (r1, dest', err) \<Rightarrow>
        (case rr_run r1 cs of (r2, obs) \<Rightarrow> (r2, (dest', err) # obs)))"
| "rr_run r (DoColumns # cs) = rr_run (fst (rr_Columns r)) cs"

fun dr_run ::
  "driver_rows \<Rightarrow> rows_call list \<Rightarrow> driver_rows \<times> (driver_value list \<times> error option) list" where
  "dr_run d [] = (d, [])"
| "dr_run d (DoNext dest # cs) =
     (case dr_Next d dest of (d1, dest', err) \<Rightarrow>
        (case dr_run d1 cs of (d2, obs) \<Rightarrow> (d2, (dest', err) # obs)))"
| "dr_run d (DoColumns # cs) = dr_run d cs"

fun rc_run ::
  "rowsCached \<Rightarrow> driver_value list list \<Rightarrow> (driver_value list \<times> error option) list may_panic" where
  "rc_run r [] = Returns []"
| "rc_run r (dest # dests) =
     (case rc_Next r dest of
        Panic \<Rightarrow> Panic
      | Returns (r', dest', err) \<Rightarrow>
          (case rc_run r' dests of
             Panic \<Rightarrow> Panic
           | Returns obs \<Rightarrow> Returns ((dest', err) # obs)))"

text \<open>
  What a caller has seen in the results of its \<open>Next\<close> calls: an \<open>io.EOF\<close>, an error
  other than \<open>io.EOF\<close>, and the rows handed back before the first error of either kind.
\<close>

definition saw_EOF :: "(driver_value list \<times> error option) list \<Rightarrow> bool" where
  "saw_EOF obs = list_ex (\<lambda>(vs, e). e = Some EOF) obs"

definition saw_error :: "(driver_value list \<times> error option) list \<Rightarrow> bool" where
  "saw_error obs = list_ex (\<lambda>(vs, e). e \<noteq> None \<and> e \<noteq> Some EOF) obs"

definition rows_read :: "(driver_value list \<times> error option) list \<Rightarrow> driver_value list list" where
  "rows_read obs = map fst (takeWhile (\<lambda>(vs, e). e = None) obs)"

text \<open>The adapter has stopped buffering: one of its three flags is set.\<close>

definition halted :: "rowsRecorder \<Rightarrow> bool" where
  "halted r = (gotEOF r \<or> gotErr r \<or> maxRowsHit r)"

section \<open>Concurrent callers, at the grain of the atomic operations\<close>

text \<open>
  The counters are only touched through \<open>atomic.AddUint64\<close> and \<open>atomic.LoadUint64\<close>.
  Each such call is taken as one indivisible step, and a run of concurrent callers as
  the order in which their steps take effect. \<open>AddHits\<close>, \<open>AddMisses\<close> and \<open>AddErrors\<close>
  are the increments made by query executions. \<open>Stats()\<close> is the three loads of its
  struct literal, \<open>LoadHits\<close>, \<open>LoadMisses\<close> and \<open>LoadErrors\<close> in this order, each
  storing into the result; the second component of the state is that result.
  \<open>counter_states\<close> lists the values the three counters hold before each step and at
  the end.
\<close>

datatype atomic_op = AddHits | AddMisses | AddErrors | LoadHits | LoadMisses | LoadErrors

fun atomic_step :: "atomic_op \<Rightarrow> Interceptor \<times> Stats \<Rightarrow> Interceptor \<times> Stats" where
  "atomic_step AddHits (i, s) = (add_Hits i, s)"
| "atomic_step AddMisses (i, s) = (add_Misses i, s)"
| "atomic_step AddErrors (i, s) = (add_Errors i, s)"
| "atomic_step LoadHits (i, s) = (i, s\<lparr>Hits := Hits (stats i)\<rparr>)"
| "atomic_step LoadMisses (i, s) = (i, s\<lparr>Misses := Misses (stats i)\<rparr>)"
| "atomic_step LoadErrors (i, s) = (i, s\<lparr>Errors := Errors (stats i)\<rparr>)"

fun run_schedule :: "atomic_op list \<Rightarrow> Interceptor \<times> Stats \<Rightarrow> Interceptor \<times> Stats" where
  "run_schedule [] st = st"
| "run_schedule (op # ops) st = run_schedule ops (atomic_step op st)"

fun counter_states :: "atomic_op list \<Rightarrow> Interceptor \<times> Stats \<Rightarrow> Stats list" where
  "counter_states [] st = [stats (fst st)]"
| "counter_states (op # ops) st = stats (fst st) # counter_states ops (atomic_step op st)"

definition is_add :: "atomic_op \<Rightarrow> bool" where
  "is_add op = (op = AddHits \<or> op = AddMisses \<or> op = AddErrors)"

section \<open>Auxiliary notions for the attribute parser\<close>

text \<open>The number of positions of a text at which \<open>attrRegexp\<close> matches.\<close>

fun match_count :: "string \<Rightarrow> nat" where
  "match_count [] = 0"
| "match_count (c # cs) = (if match_here (c # cs) = None then 0 else 1) + match_count cs"

text \<open>
  No match of \<open>attrRegexp\<close> starts within the part \<open>pre\<close> of the text \<open>pre @ rest\<close>.
\<close>

fun no_match_within :: "string \<Rightarrow> string \<Rightarrow> bool" where
  "no_match_within [] rest = True"
| "no_match_within (c # cs) rest = (match_here (c # cs @ rest) = None \<and> no_match_within cs rest)"

text \<open>A submatch list as \<open>attrRegexp\<close> produces it: three entries, the last a digit run.\<close>

definition digit_match :: "string list \<Rightarrow> bool" where
  "digit_match m = (length m = 3 \<and> m ! 2 \<noteq> [] \<and> list_all is_digit (m ! 2))"

definition in_range :: "attributes \<Rightarrow> bool" where
  "in_range a = (0 \<le> ttl a \<and> ttl a \<le> 2 ^ 63 - 1 \<and> 0 \<le> maxRows a \<and> maxRows a \<le> 2 ^ 63 - 1)"

section \<open>Example data\<close>

text \<open>The query, argument, item and cursor of the examples in the specification.\<close>

definition demo_query :: string where
  "demo_query = ''-- @cache-ttl 5'' @ [CHR 0x0A] @ ''-- @cache-max-rows 10'' @ [CHR 0x0A]
     @ ''SELECT name FROM books WHERE pages > ?''"

definition demo_args :: "NamedValue list" where
  "demo_args = [\<lparr>Name = [], Ordinal = 1, Value = VInt 10\<rparr>]"

definition demo_item :: Item where
  "demo_item = \<lparr>Cols = [''name''], Rows = [[VString ''Alice''], [VString ''Bob'']]\<rparr>"

definition demo_rows :: "error option \<Rightarrow> driver_rows" where
  "demo_rows close_err =
     \<lparr>dr_columns = [''name''],
      dr_pending = [([VString ''Alice''], None), ([VString ''Bob''], None), ([VString ''Bob''], Some EOF)],
      dr_close = close_err\<rparr>"

definition demo_interceptor ::
  "(string \<Rightarrow> Item option \<times> bool \<times> error option) \<Rightarrow> (string \<times> error option) \<Rightarrow> error option \<Rightarrow> Interceptor" where
  "demo_interceptor get hashed set_err =
     \<lparr>c_Get = get, c_Set = (\<lambda>k it d. set_err), hashFunc = (\<lambda>q a. hashed), onErr = True,
      stats = \<lparr>Hits = 0, Misses = 0, Errors = 0\<rparr>, disabled = False, calls = []\<rparr>"

definition demo_calls :: "rows_call list" where
  "demo_calls = [DoColumns, DoNext [VNil], DoNext [VNil], DoNext [VNil]]"

section \<open>Lemmas about the attribute parser\<close>

lemma getAttrs_demo_query: "getAttrs demo_query = Some \<lparr>ttl = 5, maxRows = 10\<rparr>"
  by code_simp

lemma match_directive_shape:
  assumes "match_directive name s = Some (m, rest)"
  shows "\<exists>ds. m = [name @ '' '' @ ds, name, ds] \<and> ds \<noteq> [] \<and> list_all is_digit ds"
proof -
  from assms obtain r' where "m = [name @ '' '' @ takeWhile is_digit r', name, takeWhile is_digit r']"
    "takeWhile is_digit r' \<noteq> []"
    by (auto simp: match_directive_def Let_def split: option.splits list.splits if_splits)
  moreover have "list_all is_digit (takeWhile is_digit r')"
    by (simp add: list_all_iff) (meson set_takeWhileD)
  ultimately show ?thesis by blast
qed

lemma match_here_digit_match: "match_here s = Some (m, rest) \<Longrightarrow> digit_match m"
  by (auto simp: match_here_def digit_match_def split: option.splits dest!: match_directive_shape)

lemma match_here_no_at: "s = [] \<or> hd s \<noteq> CHR ''@'' \<Longrightarrow> match_here s = None"
  by (cases s) (auto simp: match_here_def match_directive_def)

lemma FindAll_skip: "match_here (c # cs) = None \<Longrightarrow>
    FindAllStringSubmatch (c # cs) n = FindAllStringSubmatch cs n"
  by (cases "n = 0") (simp_all add: FindAllStringSubmatch.simps [of "c # cs"] FindAllStringSubmatch.simps [of cs 0])

lemma FindAll_Nil: "FindAllStringSubmatch [] n = []"
  by (simp add: FindAllStringSubmatch.simps [of "[]"] match_here_no_at)

lemma FindAll_match:
  "match_here s = Some (m, rest) \<Longrightarrow> FindAllStringSubmatch s (Suc n) = m # FindAllStringSubmatch rest n"
  by (simp add: FindAllStringSubmatch.simps [of s])

lemma FindAll_digit_match: "m \<in> set (FindAllStringSubmatch s n) \<Longrightarrow> digit_match m"
proof (induction s n rule: FindAllStringSubmatch.induct)
  case (1 s n)
  show ?case
  proof (cases "n = 0")
    case True
    with "1.prems" show ?thesis by (simp add: FindAllStringSubmatch.simps)
  next
    case n: False
    then obtain k where k: "n = Suc k" by (cases n) simp_all
    show ?thesis
    proof (cases "match_here s")
      case None
      show ?thesis
      proof (cases s)
        case Nil
        with "1.prems" show ?thesis by (simp add: FindAll_Nil)
      next
        case (Cons c cs)
        with "1.prems" None have "m \<in> set (FindAllStringSubmatch cs n)"
          by (simp add: FindAll_skip)
        with "1.IH"(1) [OF n None Cons] show ?thesis .
      qed
    next
      case (Some p)
      obtain m' rest where p: "p = (m', rest)" by (cases p)
      from "1.prems" Some p k have "m = m' \<or> m \<in> set (FindAllStringSubmatch rest (n - 1))"
        by (simp add: FindAll_match)
      then show ?thesis
      proof
        assume "m = m'"
        with Some p match_here_digit_match show ?thesis by blast
      next
        assume "m \<in> set (FindAllStringSubmatch rest (n - 1))"
        with "1.IH"(2) [OF n Some p [symmetric]] show ?thesis by blast
      qed
    qed
  qed
qed

lemma Atoi_digits:
  assumes "ds \<noteq> []" "list_all is_digit ds"
  shows "fst (Atoi ds) = min (int (digits_value ds)) (2 ^ 63 - 1)"
proof -
  from assms have "is_digit (hd ds)" by (cases ds) simp_all
  then have "hd ds \<noteq> CHR ''-''" "hd ds \<noteq> CHR ''+''" by (auto simp: is_digit_def)
  with assms show ?thesis by (simp add: Atoi_def Let_def min_def)
qed

lemma Atoi_digits_range:
  assumes "ds \<noteq> []" "list_all is_digit ds"
  shows "0 \<le> fst (Atoi ds)" "fst (Atoi ds) \<le> 2 ^ 63 - 1"
  using Atoi_digits [OF assms] by (simp_all add: min_def)

lemma attrs_loop_range:
  assumes "attrs_loop ms a = Some a'" "\<forall>m\<in>set ms. digit_match m" "in_range a"
  shows "in_range a'"
  using assms
proof (induction ms arbitrary: a)
  case Nil
  then show ?case by simp
next
  case (Cons m ms)
  from Cons.prems(2) have dm: "m ! 2 \<noteq> []" "list_all is_digit (m ! 2)" "length m = 3"
    by (simp_all add: digit_match_def)
  have r1: "in_range (a\<lparr>ttl := fst (Atoi (m ! 2))\<rparr>)"
    using Cons.prems(3) Atoi_digits_range [OF dm(1,2)] by (simp add: in_range_def)
  have r2: "in_range (a\<lparr>maxRows := fst (Atoi (m ! 2))\<rparr>)"
    using Cons.prems(3) Atoi_digits_range [OF dm(1,2)] by (simp add: in_range_def)
  from Cons.prems(1) dm(3) consider
      "attrs_loop ms (a\<lparr>ttl := fst (Atoi (m ! 2))\<rparr>) = Some a'"
    | "attrs_loop ms (a\<lparr>maxRows := fst (Atoi (m ! 2))\<rparr>) = Some a'"
    | "attrs_loop ms a = Some a'"
    by (auto split: if_splits)
  then show ?case
  proof cases
    case 1
    from Cons.IH [OF 1 _ r1] Cons.prems(2) show ?thesis by simp
  next
    case 2
    from Cons.IH [OF 2 _ r2] Cons.prems(2) show ?thesis by simp
  next
    case 3
    from Cons.IH [OF 3 _ Cons.prems(3)] Cons.prems(2) show ?thesis by simp
  qed
qed

lemma getAttrs_range: "getAttrs q = Some a \<Longrightarrow> in_range a"
proof -
  assume a: "getAttrs q = Some a"
  then have "attrs_loop (FindAllStringSubmatch q 2) \<lparr>ttl = 0, maxRows = 0\<rparr> = Some a"
    by (simp add: getAttrs_def Let_def split: if_splits)
  moreover have "\<forall>m\<in>set (FindAllStringSubmatch q 2). digit_match m"
    using FindAll_digit_match by blast
  moreover have "in_range \<lparr>ttl = 0, maxRows = 0\<rparr>" by (simp add: in_range_def)
  ultimately show ?thesis by (rule attrs_loop_range)
qed

lemma strip_prefix_eq: "strip_prefix p s = Some r \<Longrightarrow> s = p @ r"
  by (induction p s rule: strip_prefix.induct) (auto split: if_splits)

lemma match_directive_rest:
  assumes "match_directive name s = Some (m, rest)"
  shows "\<exists>c p. s = (c # p) @ rest"
proof -
  from assms obtain r c r' where r: "strip_prefix name s = Some r" "r = c # r'"
    and rest: "rest = dropWhile is_digit r'"
    by (auto simp: match_directive_def Let_def split: option.splits list.splits if_splits)
  have "s = (name @ c # takeWhile is_digit r') @ rest"
    using strip_prefix_eq [OF r(1)] r(2) rest by simp
  then show ?thesis by (cases "name @ c # takeWhile is_digit r'") auto
qed

lemma match_here_rest: "match_here s = Some (m, rest) \<Longrightarrow> \<exists>c p. s = (c # p) @ rest"
  by (auto simp: match_here_def split: option.splits dest: match_directive_rest)

lemma match_count_suffix: "match_count s \<le> match_count (p @ s)"
  by (induction p) auto

lemma FindAll_le_match_count: "length (FindAllStringSubmatch s n) \<le> match_count s"
proof (induction s n rule: FindAllStringSubmatch.induct)
  case (1 s n)
  show ?case
  proof (cases "n = 0")
    case True
    then show ?thesis by (simp add: FindAllStringSubmatch.simps)
  next
    case n: False
    then obtain k where k: "n = Suc k" by (cases n) simp_all
    show ?thesis
    proof (cases "match_here s")
      case None
      show ?thesis
      proof (cases s)
        case Nil
        then show ?thesis by (simp add: FindAll_Nil)
      next
        case (Cons c cs)
        with "1.IH"(1) [OF n None Cons] None show ?thesis
          by (simp add: FindAll_skip)
      qed
    next
      case (Some x)
      obtain m rest where x: "x = (m, rest)" by (cases x)
      from match_here_rest [OF Some [unfolded x]] obtain c p where s: "s = (c # p) @ rest"
        by blast
      have "match_count rest \<le> match_count (p @ rest)" by (rule match_count_suffix)
      then have "Suc (match_count rest) \<le> match_count s"
        using Some s by simp
      moreover have "length (FindAllStringSubmatch rest (n - 1)) \<le> match_count rest"
        using "1.IH"(2) [OF n Some x [symmetric]] by simp
      moreover have "FindAllStringSubmatch s n = m # FindAllStringSubmatch rest (n - 1)"
        using FindAll_match [OF Some [unfolded x], of k] k by simp
      ultimately show ?thesis by simp
    qed
  qed
qed

lemma getAttrs_needs_two_matches: "match_count q < 2 \<Longrightarrow> getAttrs q = None"
  using FindAll_le_match_count [of q 2] by (simp add: getAttrs_def Let_def)

lemma takeWhile_no_digit: "t = [] \<or> \<not> is_digit (hd t) \<Longrightarrow> takeWhile is_digit t = []"
  by (cases t) auto

lemma takeWhile_digit_run:
  assumes "list_all is_digit ds" "t = [] \<or> \<not> is_digit (hd t)"
  shows "takeWhile is_digit (ds @ t) = ds" "dropWhile is_digit (ds @ t) = t"
proof -
  from assms(1) have a: "\<And>x. x \<in> set ds \<Longrightarrow> is_digit x" by (simp add: list_all_iff)
  from assms(2) have b: "takeWhile is_digit t = []" by (rule takeWhile_no_digit)
  then have c: "dropWhile is_digit t = t"
    by (metis append_Nil takeWhile_dropWhile_id)
  show "takeWhile is_digit (ds @ t) = ds" using a b by (simp add: takeWhile_append2)
  show "dropWhile is_digit (ds @ t) = t" using a c by (simp add: dropWhile_append2)
qed

lemma match_here_no_digit:
  assumes "t = [] \<or> \<not> is_digit (hd t)"
  shows "match_here (''@cache-ttl '' @ t) = None" "match_here (''@cache-max-rows '' @ t) = None"
  using takeWhile_no_digit [OF assms]
  by (simp_all add: match_here_def match_directive_def)

lemma match_here_ttl:
  assumes "ds \<noteq> []" "list_all is_digit ds" "t = [] \<or> \<not> is_digit (hd t)"
  shows "match_here (''@cache-ttl '' @ ds @ t) = Some ([''@cache-ttl '' @ ds, ''@cache-ttl'', ds], t)"
  using takeWhile_digit_run [OF assms(2,3)] assms(1)
  by (simp add: match_here_def match_directive_def)

lemma match_here_max_rows:
  assumes "ds \<noteq> []" "list_all is_digit ds" "t = [] \<or> \<not> is_digit (hd t)"
  shows "match_here (''@cache-max-rows '' @ ds @ t)
     = Some ([''@cache-max-rows '' @ ds, ''@cache-max-rows'', ds], t)"
  using takeWhile_digit_run [OF assms(2,3)] assms(1)
  by (simp add: match_here_def match_directive_def)

lemma FindAll_zero: "FindAllStringSubmatch s 0 = []"
  by (simp add: FindAllStringSubmatch.simps)

lemma not_digit_at: "\<not> is_digit CHR ''@''"
  by (simp add: is_digit_def)

lemma FindAll_skip_unmatched:
  "no_match_within pre s \<Longrightarrow> FindAllStringSubmatch (pre @ s) n = FindAllStringSubmatch s n"
proof (induction pre)
  case Nil
  then show ?case by simp
next
  case (Cons c pre)
  then have "match_here (c # pre @ s) = None" "no_match_within pre s" by simp_all
  from FindAll_skip [OF this(1)] Cons.IH [OF this(2)] show ?case by simp
qed

lemma no_at_no_match_within: "CHR ''@'' \<notin> set pre \<Longrightarrow> no_match_within pre s"
  by (induction pre) (auto intro: match_here_no_at)

lemma getAttrs_first_two_matches:
  assumes pre1: "no_match_within pre (''@cache-ttl '' @ ds1 @ mid @ ''@cache-max-rows '' @ ds2 @ post)"
    and mid1: "no_match_within mid (''@cache-max-rows '' @ ds2 @ post)"
    and mid0: "mid = [] \<or> \<not> is_digit (hd mid)" and post0: "post = [] \<or> \<not> is_digit (hd post)"
    and d1: "ds1 \<noteq> []" "list_all is_digit ds1" and d2: "ds2 \<noteq> []" "list_all is_digit ds2"
  shows "getAttrs (pre @ ''@cache-ttl '' @ ds1 @ mid @ ''@cache-max-rows '' @ ds2 @ post)
           = Some \<lparr>ttl = min (int (digits_value ds1)) (2 ^ 63 - 1),
                   maxRows = min (int (digits_value ds2)) (2 ^ 63 - 1)\<rparr>"
proof -
  let ?m1 = "[''@cache-ttl '' @ ds1, ''@cache-ttl'', ds1]"
  let ?m2 = "[''@cache-max-rows '' @ ds2, ''@cache-max-rows'', ds2]"
  have two: "(2::nat) = Suc (Suc 0)" by simp
  have t1: "mid @ ''@cache-max-rows '' @ ds2 @ post = [] \<or>
      \<not> is_digit (hd (mid @ ''@cache-max-rows '' @ ds2 @ post))"
    using mid0 not_digit_at by (cases mid) auto
  have "FindAllStringSubmatch (pre @ ''@cache-ttl '' @ ds1 @ mid @ ''@cache-max-rows '' @ ds2 @ post) 2
      = FindAllStringSubmatch (''@cache-ttl '' @ ds1 @ mid @ ''@cache-max-rows '' @ ds2 @ post) 2"
    using pre1 by (rule FindAll_skip_unmatched)
  also have "\<dots> = ?m1 # FindAllStringSubmatch (mid @ ''@cache-max-rows '' @ ds2 @ post) (Suc 0)"
    unfolding two by (rule FindAll_match [OF match_here_ttl [OF d1 t1]])
  also have "FindAllStringSubmatch (mid @ ''@cache-max-rows '' @ ds2 @ post) (Suc 0)
      = FindAllStringSubmatch (''@cache-max-rows '' @ ds2 @ post) (Suc 0)"
    using mid1 by (rule FindAll_skip_unmatched)
  also have "\<dots> = ?m2 # FindAllStringSubmatch post 0"
    by (rule FindAll_match [OF match_here_max_rows [OF d2 post0]])
  finally have f1: "FindAllStringSubmatch
      (pre @ ''@cache-ttl '' @ ds1 @ mid @ ''@cache-max-rows '' @ ds2 @ post) 2 = [?m1, ?m2]"
    by (simp add: FindAll_zero)
  show ?thesis
    unfolding getAttrs_def f1 by (simp add: Atoi_digits [OF d1] Atoi_digits [OF d2])
qed

lemma getAttrs_first_two_matches_swapped:
  assumes pre1: "no_match_within pre (''@cache-max-rows '' @ ds2 @ mid @ ''@cache-ttl '' @ ds1 @ post)"
    and mid1: "no_match_within mid (''@cache-ttl '' @ ds1 @ post)"
    and mid0: "mid = [] \<or> \<not> is_digit (hd mid)" and post0: "post = [] \<or> \<not> is_digit (hd post)"
    and d1: "ds1 \<noteq> []" "list_all is_digit ds1" and d2: "ds2 \<noteq> []" "list_all is_digit ds2"
  shows "getAttrs (pre @ ''@cache-max-rows '' @ ds2 @ mid @ ''@cache-ttl '' @ ds1 @ post)
           = Some \<lparr>ttl = min (int (digits_value ds1)) (2 ^ 63 - 1),
                   maxRows = min (int (digits_value ds2)) (2 ^ 63 - 1)\<rparr>"
proof -
  let ?m1 = "[''@cache-ttl '' @ ds1, ''@cache-ttl'', ds1]"
  let ?m2 = "[''@cache-max-rows '' @ ds2, ''@cache-max-rows'', ds2]"
  have two: "(2::nat) = Suc (Suc 0)" by simp
  have t2: "mid @ ''@cache-ttl '' @ ds1 @ post = [] \<or>
      \<not> is_digit (hd (mid @ ''@cache-ttl '' @ ds1 @ post))"
    using mid0 not_digit_at by (cases mid) auto
  have "FindAllStringSubmatch (pre @ ''@cache-max-rows '' @ ds2 @ mid @ ''@cache-ttl '' @ ds1 @ post) 2
      = FindAllStringSubmatch (''@cache-max-rows '' @ ds2 @ mid @ ''@cache-ttl '' @ ds1 @ post) 2"
    using pre1 by (rule FindAll_skip_unmatched)
  also have "\<dots> = ?m2 # FindAllStringSubmatch (mid @ ''@cache-ttl '' @ ds1 @ post) (Suc 0)"
    unfolding two by (rule FindAll_match [OF match_here_max_rows [OF d2 t2]])
  also have "FindAllStringSubmatch (mid @ ''@cache-ttl '' @ ds1 @ post) (Suc 0)
      = FindAllStringSubmatch (''@cache-ttl '' @ ds1 @ post) (Suc 0)"
    using mid1 by (rule FindAll_skip_unmatched)
  also have "\<dots> = ?m1 # FindAllStringSubmatch post 0"
    by (rule FindAll_match [OF match_here_ttl [OF d1 post0]])
  finally have f2: "FindAllStringSubmatch
      (pre @ ''@cache-max-rows '' @ ds2 @ mid @ ''@cache-ttl '' @ ds1 @ post) 2 = [?m2, ?m1]"
    by (simp add: FindAll_zero)
  show ?thesis
    unfolding getAttrs_def f2 by (simp add: Atoi_digits [OF d1] Atoi_digits [OF d2])
qed

section \<open>Lemmas about the key function\<close>
















section \<open>Lemmas about the cursors\<close>

lemma go_copy_same_length: "length dst = length src \<Longrightarrow> go_copy dst src = src"
  by (simp add: go_copy_def)

lemma rc_run_from:
  assumes "rc_Item r = Some it"
  shows "\<exists>obs. rc_run r dests = Returns obs \<and> length obs = length dests \<and>
           (\<forall>k<length dests. obs ! k =
              (if ptr r + k < length (Rows it)
               then (go_copy (dests ! k) (Rows it ! (ptr r + k)), None)
               else (dests ! k, Some EOF)))"
  using assms
proof (induction dests arbitrary: r)
  case Nil
  then show ?case by simp
next
  case (Cons dest dests)
  show ?case
  proof (cases "ptr r < length (Rows it)")
    case True
    let ?r' = "r\<lparr>ptr := ptr r + 1\<rparr>"
    have nx: "rc_Next r dest = Returns (?r', go_copy dest (Rows it ! ptr r), None)"
      using True Cons.prems by (simp add: rc_Next_def)
    have "rc_Item ?r' = Some it" using Cons.prems by simp
    from Cons.IH [OF this] obtain obs where obs: "rc_run ?r' dests = Returns obs"
      "length obs = length dests"
      "\<forall>k<length dests. obs ! k =
              (if ptr ?r' + k < length (Rows it)
               then (go_copy (dests ! k) (Rows it ! (ptr ?r' + k)), None)
               else (dests ! k, Some EOF))" by blast
    have "\<forall>k<length (dest # dests). ((go_copy dest (Rows it ! ptr r), None) # obs) ! k =
              (if ptr r + k < length (Rows it)
               then (go_copy ((dest # dests) ! k) (Rows it ! (ptr r + k)), None)
               else ((dest # dests) ! k, Some EOF))"
    proof (intro allI impI)
      fix k assume "k < length (dest # dests)"
      then show "((go_copy dest (Rows it ! ptr r), None) # obs) ! k =
              (if ptr r + k < length (Rows it)
               then (go_copy ((dest # dests) ! k) (Rows it ! (ptr r + k)), None)
               else ((dest # dests) ! k, Some EOF))"
        using True obs(3) by (cases k) auto
    qed
    then show ?thesis using nx obs(1,2) by simp
  next
    case False
    have nx: "rc_Next r dest = Returns (r, dest, Some EOF)"
      using False Cons.prems by (simp add: rc_Next_def)
    from Cons.IH [OF Cons.prems] obtain obs where obs: "rc_run r dests = Returns obs"
      "length obs = length dests"
      "\<forall>k<length dests. obs ! k =
              (if ptr r + k < length (Rows it)
               then (go_copy (dests ! k) (Rows it ! (ptr r + k)), None)
               else (dests ! k, Some EOF))" by blast
    have "\<forall>k<length (dest # dests). ((dest, Some EOF) # obs) ! k =
              (if ptr r + k < length (Rows it)
               then (go_copy ((dest # dests) ! k) (Rows it ! (ptr r + k)), None)
               else ((dest # dests) ! k, Some EOF))"
    proof (intro allI impI)
      fix k assume "k < length (dest # dests)"
      then show "((dest, Some EOF) # obs) ! k =
              (if ptr r + k < length (Rows it)
               then (go_copy ((dest # dests) ! k) (Rows it ! (ptr r + k)), None)
               else ((dest # dests) ! k, Some EOF))"
        using False obs(3) by (cases k) auto
    qed
    then show ?thesis using nx obs(1,2) by simp
  qed
qed

lemma dr_Next_frame:
  "dr_close (fst (dr_Next d dest)) = dr_close d \<and> dr_columns (fst (dr_Next d dest)) = dr_columns d"
  by (auto simp: dr_Next_def split: list.splits prod.splits)

lemma rr_Next_transparent:
  assumes "rr_Next r dest = (r1, dest', err)"
  shows "dr r1 = fst (dr_Next (dr r) dest)" "(dest', err) = snd (dr_Next (dr r) dest)"
  using assms
  by (auto simp: rr_Next_def Let_def split: prod.splits option.splits if_splits)

lemma rr_Next_frame:
  assumes "rr_Next r dest = (r1, dest', err)"
  shows "r_maxRows r1 = r_maxRows r" "setter r1 = setter r" "Cols (item r1) = Cols (item r)"
  using assms
  by (auto simp: rr_Next_def Let_def split: prod.splits option.splits if_splits)

lemma rr_Next_flags:
  assumes "rr_Next r dest = (r1, dest', err)"
  shows "gotEOF r1 = (gotEOF r \<or> err = Some EOF)"
    "gotErr r1 = (gotErr r \<or> (err \<noteq> None \<and> err \<noteq> Some EOF))"
  using assms
  by (auto simp: rr_Next_def Let_def split: prod.splits option.splits if_splits)

lemma rr_Next_halted:
  assumes "rr_Next r dest = (r1, dest', err)" "halted r"
  shows "Rows (item r1) = Rows (item r)" "maxRowsHit r1 = maxRowsHit r" "halted r1"
  using assms
  by (auto simp: rr_Next_def halted_def Let_def split: prod.splits option.splits if_splits)

lemma rr_Next_stop:
  assumes "rr_Next r dest = (r1, dest', err)" "\<not> halted r" "err \<noteq> None"
  shows "Rows (item r1) = Rows (item r)" "\<not> maxRowsHit r1" "halted r1"
  using assms
  by (auto simp: rr_Next_def halted_def Let_def split: prod.splits option.splits if_splits)

lemma rr_Next_full:
  assumes "rr_Next r dest = (r1, dest', None)" "\<not> halted r"
    "int (length (Rows (item r))) = r_maxRows r"
  shows "Rows (item r1) = Rows (item r)" "maxRowsHit r1" "halted r1"
  using assms
  by (auto simp: rr_Next_def halted_def Let_def split: prod.splits option.splits if_splits)

lemma rr_Next_append:
  assumes "rr_Next r dest = (r1, dest', None)" "\<not> halted r"
    "int (length (Rows (item r))) \<noteq> r_maxRows r"
  shows "Rows (item r1) = Rows (item r) @ [dest']" "\<not> halted r1"
  using assms
  by (auto simp: rr_Next_def halted_def Let_def split: prod.splits option.splits if_splits)

lemma rr_run_frame:
  "dr_close (dr (fst (rr_run r cs))) = dr_close (dr r)
   \<and> dr_columns (dr (fst (rr_run r cs))) = dr_columns (dr r)
   \<and> r_maxRows (fst (rr_run r cs)) = r_maxRows r
   \<and> setter (fst (rr_run r cs)) = setter r"
proof (induction cs arbitrary: r)
  case Nil
  then show ?case by simp
next
  case (Cons c cs)
  show ?case
  proof (cases c)
    case (DoNext dest)
    obtain r1 dest' err where nx: "rr_Next r dest = (r1, dest', err)"
      by (metis prod_cases3)
    show ?thesis
      using Cons.IH [of r1] rr_Next_frame [OF nx] rr_Next_transparent(1) [OF nx]
        dr_Next_frame [of "dr r" dest]
      by (simp add: DoNext nx split_beta)
  next
    case DoColumns
    then show ?thesis using Cons.IH [of "fst (rr_Columns r)"] by (simp add: rr_Columns_def)
  qed
qed

lemma rr_run_transparent: "snd (rr_run r cs) = snd (dr_run (dr r) cs)"
proof (induction cs arbitrary: r)
  case Nil
  then show ?case by simp
next
  case (Cons c cs)
  show ?case
  proof (cases c)
    case (DoNext dest)
    obtain r1 dest' err where nx: "rr_Next r dest = (r1, dest', err)"
      by (metis prod_cases3)
    show ?thesis
      using Cons.IH [of r1] rr_Next_transparent [OF nx]
      by (simp add: DoNext nx split_beta)
  next
    case DoColumns
    then show ?thesis using Cons.IH [of "fst (rr_Columns r)"] by (simp add: rr_Columns_def)
  qed
qed

lemma rr_run_gotEOF: "gotEOF (fst (rr_run r cs)) = (gotEOF r \<or> saw_EOF (snd (rr_run r cs)))"
proof (induction cs arbitrary: r)
  case Nil
  then show ?case by (simp add: saw_EOF_def)
next
  case (Cons c cs)
  show ?case
  proof (cases c)
    case (DoNext dest)
    obtain r1 dest' err where nx: "rr_Next r dest = (r1, dest', err)"
      by (metis prod_cases3)
    show ?thesis
      using Cons.IH [of r1] rr_Next_flags(1) [OF nx]
      by (auto simp: DoNext nx split_beta saw_EOF_def)
  next
    case DoColumns
    then show ?thesis using Cons.IH [of "fst (rr_Columns r)"] by (simp add: rr_Columns_def)
  qed
qed

lemma rr_run_gotErr: "gotErr (fst (rr_run r cs)) = (gotErr r \<or> saw_error (snd (rr_run r cs)))"
proof (induction cs arbitrary: r)
  case Nil
  then show ?case by (simp add: saw_error_def)
next
  case (Cons c cs)
  show ?case
  proof (cases c)
    case (DoNext dest)
    obtain r1 dest' err where nx: "rr_Next r dest = (r1, dest', err)"
      by (metis prod_cases3)
    show ?thesis
      using Cons.IH [of r1] rr_Next_flags(2) [OF nx]
      by (auto simp: DoNext nx split_beta saw_error_def)
  next
    case DoColumns
    then show ?thesis using Cons.IH [of "fst (rr_Columns r)"] by (simp add: rr_Columns_def)
  qed
qed

lemma rr_run_Cols:
  "Cols (item (fst (rr_run r cs))) = (if DoColumns \<in> set cs then dr_columns (dr r) else Cols (item r))"
proof (induction cs arbitrary: r)
  case Nil
  then show ?case by simp
next
  case (Cons c cs)
  show ?case
  proof (cases c)
    case (DoNext dest)
    obtain r1 dest' err where nx: "rr_Next r dest = (r1, dest', err)"
      by (metis prod_cases3)
    show ?thesis
      using Cons.IH [of r1] rr_Next_frame [OF nx] rr_Next_transparent(1) [OF nx]
        dr_Next_frame [of "dr r" dest]
      by (simp add: DoNext nx split_beta)
  next
    case DoColumns
    then show ?thesis using Cons.IH [of "fst (rr_Columns r)"] by (simp add: rr_Columns_def)
  qed
qed

lemma rr_run_halted:
  "halted r \<Longrightarrow> Rows (item (fst (rr_run r cs))) = Rows (item r)
     \<and> maxRowsHit (fst (rr_run r cs)) = maxRowsHit r"
proof (induction cs arbitrary: r)
  case Nil
  then show ?case by simp
next
  case (Cons c cs)
  show ?case
  proof (cases c)
    case (DoNext dest)
    obtain r1 dest' err where nx: "rr_Next r dest = (r1, dest', err)"
      by (metis prod_cases3)
    show ?thesis
      using Cons.IH [of r1] rr_Next_halted [OF nx Cons.prems]
      by (simp add: DoNext nx split_beta)
  next
    case DoColumns
    have "halted (fst (rr_Columns r))" using Cons.prems by (simp add: rr_Columns_def halted_def)
    then show ?thesis using Cons.IH [of "fst (rr_Columns r)"] DoColumns
      by (simp add: rr_Columns_def)
  qed
qed

lemma rr_run_live:
  assumes "\<not> halted r" "int (length (Rows (item r))) \<le> r_maxRows r"
  shows "Rows (item (fst (rr_run r cs))) =
           Rows (item r) @ take (nat (r_maxRows r) - length (Rows (item r))) (rows_read (snd (rr_run r cs)))
       \<and> maxRowsHit (fst (rr_run r cs)) =
           (r_maxRows r < int (length (Rows (item r)) + length (rows_read (snd (rr_run r cs)))))"
  using assms
proof (induction cs arbitrary: r)
  case Nil
  then show ?case by (simp add: rows_read_def halted_def)
next
  case (Cons c cs)
  show ?case
  proof (cases c)
    case (DoNext dest)
    obtain r1 dest' err where nx: "rr_Next r dest = (r1, dest', err)"
      by (metis prod_cases3)
    show ?thesis
    proof (cases err)
      case (Some e)
      then have "err \<noteq> None" by simp
      from rr_Next_stop [OF nx Cons.prems(1) this] rr_run_halted [of r1 cs]
      show ?thesis using Cons.prems(2)
        by (simp add: DoNext nx split_beta rows_read_def Some)
    next
      case None
      note nx' = nx [unfolded None]
      show ?thesis
      proof (cases "int (length (Rows (item r))) = r_maxRows r")
        case True
        from rr_Next_full [OF nx' Cons.prems(1) True] rr_run_halted [of r1 cs]
        show ?thesis using True
          by (simp add: DoNext nx split_beta rows_read_def None)
      next
        case False
        from rr_Next_append [OF nx' Cons.prems(1) False]
        have r1: "Rows (item r1) = Rows (item r) @ [dest']" "\<not> halted r1" by simp_all
        have m: "r_maxRows r1 = r_maxRows r" using rr_Next_frame(1) [OF nx] .
        have le: "int (length (Rows (item r1))) \<le> r_maxRows r1"
          using False Cons.prems(2) r1(1) m by simp
        have lt: "length (Rows (item r)) < nat (r_maxRows r)"
          using False Cons.prems(2) by linarith
        then have tk: "nat (r_maxRows r) - length (Rows (item r))
            = Suc (nat (r_maxRows r) - Suc (length (Rows (item r))))" by simp
        from Cons.IH [OF r1(2) le] show ?thesis
          using m r1(1) tk
          by (simp add: DoNext nx split_beta rows_read_def None)
      qed
    qed
  next
    case DoColumns
    have "\<not> halted (fst (rr_Columns r))"
      "int (length (Rows (item (fst (rr_Columns r))))) \<le> r_maxRows (fst (rr_Columns r))"
      using Cons.prems by (simp_all add: rr_Columns_def halted_def)
    from Cons.IH [OF this] show ?thesis using DoColumns
      by (simp add: rr_Columns_def)
  qed
qed

section \<open>Lemmas about the interceptor\<close>

lemma queryContext_hit:
  assumes "\<not> disabled i" "getAttrs query = Some attrs" "hashFunc i query args = (hash, None)"
    "c_Get i hash = (it, True, None)"
  shows "queryContext i ev live query args =
           (i\<lparr>stats := (stats i)\<lparr>Hits := Hits (stats i) + 1\<rparr>,
              calls := calls i @ [CallHashFunc query args, CallGet hash]\<rparr>,
            CachedRows \<lparr>rc_Item = it, ptr = 0\<rparr>, None)"
  using assms
  by (simp add: queryContext_def checkCache_def record_call_def add_Hits_def)

lemma ttl_duration_seconds:
  assumes "0 \<le> ttl attrs" "ttl attrs \<le> 9223372036"
  shows "sint (ttl_duration attrs) = ttl attrs * 1000000000"
proof -
  have "ttl_duration attrs = word_of_int (ttl attrs * 1000000000)"
    by (simp add: ttl_duration_def)
  then have "sint (ttl_duration attrs) = sint (word_of_int (ttl attrs * 1000000000) :: 64 word)"
    by (rule arg_cong)
  also have "\<dots> = signed_take_bit 63 (ttl attrs * 1000000000)"
    by (subst sint_sbintrunc') simp
  also have "\<dots> = ttl attrs * 1000000000"
    using assms by (intro signed_take_bit_int_eq_self) simp_all
  finally show ?thesis .
qed

lemma cacheSetter_calls:
  "cacheSetter hash attrs it j =
     (case c_Set j hash it (ttl_duration attrs) of
        None \<Rightarrow> j\<lparr>calls := calls j @ [CallSet hash it (ttl_duration attrs)]\<rparr>
      | Some e \<Rightarrow>
          j\<lparr>stats := (stats j)\<lparr>Errors := Errors (stats j) + 1\<rparr>,
            calls := calls j @ [CallSet hash it (ttl_duration attrs)]
                       @ (if onErr j then [CallOnErr (Wrap ''Cache.Set failed: '' e)] else [])\<rparr>)"
  by (simp add: cacheSetter_def record_call_def add_Errors_def call_onErr_def Let_def
      split: option.splits)

lemma queryContext_miss:
  assumes "\<not> disabled i" "getAttrs query = Some attrs" "hashFunc i query args = (hash, None)"
    "c_Get i hash = (it, False, None)"
  shows "queryContext i ev live query args =
           (i\<lparr>stats := (stats i)\<lparr>Misses := Misses (stats i) + 1\<rparr>,
              calls := calls i @ [CallHashFunc query args, CallGet hash, ev]\<rparr>,
            (case live of
               QueryRows d \<Rightarrow>
                 RecorderRows (newRowsRecorder (cacheSetter hash attrs) d (maxRows attrs))
             | QueryError rows err \<Rightarrow> rows_of live),
            err_of live)"
  using assms
  by (simp add: queryContext_def checkCache_def record_call_def add_Misses_def err_of_def
      split: query_result.splits)

lemma queryContext_get_failed:
  assumes "\<not> disabled i" "getAttrs query = Some attrs" "hashFunc i query args = (hash, None)"
    "c_Get i hash = (it, ok, Some e)"
  shows "queryContext i ev live query args =
           (i\<lparr>stats := (stats i)\<lparr>Errors := Errors (stats i) + 1\<rparr>,
              calls := calls i @ [CallHashFunc query args, CallGet hash]
                         @ (if onErr i then [CallOnErr (Wrap ''Cache.Get failed: '' e)] else [])
                         @ [ev]\<rparr>,
            (case live of
               QueryRows d \<Rightarrow>
                 RecorderRows (newRowsRecorder (cacheSetter hash attrs) d (maxRows attrs))
             | QueryError rows err \<Rightarrow> rows_of live),
            err_of live)"
  using assms
  by (simp add: queryContext_def checkCache_def record_call_def add_Errors_def call_onErr_def
      err_of_def split: query_result.splits)

lemma queryContext_hash_failed:
  assumes "\<not> disabled i" "getAttrs query = Some attrs" "hashFunc i query args = (hash, Some e)"
  shows "queryContext i ev live query args =
           (i\<lparr>stats := (stats i)\<lparr>Errors := Errors (stats i) + 1\<rparr>,
              calls := calls i @ [CallHashFunc query args]
                         @ (if onErr i then [CallOnErr (Wrap ''HashFunc failed: '' e)] else [])
                         @ [ev]\<rparr>,
            rows_of live, err_of live)"
  using assms
  by (simp add: queryContext_def record_call_def add_Errors_def call_onErr_def)

lemma rr_Close_after_run:
  assumes "0 \<le> m"
  shows "rr_Close (fst (rr_run (newRowsRecorder s d m) cs)) j =
     (let r' = fst (rr_run (newRowsRecorder s d m) cs); obs = snd (dr_run d cs)
      in case dr_close d of
           Some e \<Rightarrow> (r'\<lparr>gotErr := True\<rparr>, j, Some e)
         | None \<Rightarrow>
             if saw_EOF obs \<and> \<not> saw_error obs \<and> int (length (rows_read obs)) \<le> m
             then (r', s \<lparr>Cols = (if DoColumns \<in> set cs then dr_columns d else []),
                          Rows = rows_read obs\<rparr> j, None)
             else (r', j, None))"
proof -
  let ?r0 = "newRowsRecorder s d m"
  let ?r' = "fst (rr_run ?r0 cs)"
  let ?obs = "snd (dr_run d cs)"
  have obs: "snd (rr_run ?r0 cs) = ?obs"
    using rr_run_transparent [of ?r0 cs] by (simp add: newRowsRecorder_def)
  have live: "\<not> halted ?r0" "int (length (Rows (item ?r0))) \<le> r_maxRows ?r0"
    using assms by (simp_all add: newRowsRecorder_def halted_def)
  have eof: "gotEOF ?r' = saw_EOF ?obs"
    using rr_run_gotEOF [of ?r0 cs] obs by (simp add: newRowsRecorder_def)
  have err: "gotErr ?r' = saw_error ?obs"
    using rr_run_gotErr [of ?r0 cs] obs by (simp add: newRowsRecorder_def)
  have hit: "maxRowsHit ?r' = (m < int (length (rows_read ?obs)))"
    using rr_run_live [OF live, of cs] obs by (simp add: newRowsRecorder_def)
  have rows: "Rows (item ?r') = take (nat m) (rows_read ?obs)"
    using rr_run_live [OF live, of cs] obs by (simp add: newRowsRecorder_def)
  have cols: "Cols (item ?r') = (if DoColumns \<in> set cs then dr_columns d else [])"
    using rr_run_Cols [of ?r0 cs] by (simp add: newRowsRecorder_def)
  have fr: "dr_close (dr ?r') = dr_close d" "setter ?r' = s"
    using rr_run_frame [of ?r0 cs] by (simp_all add: newRowsRecorder_def)
  have it: "int (length (rows_read ?obs)) \<le> m \<Longrightarrow>
      item ?r' = \<lparr>Cols = (if DoColumns \<in> set cs then dr_columns d else []), Rows = rows_read ?obs\<rparr>"
  proof -
    assume "int (length (rows_read ?obs)) \<le> m"
    then have "take (nat m) (rows_read ?obs) = rows_read ?obs" by simp
    with rows cols show ?thesis by (cases "item ?r'") simp
  qed
  define C where "C \<longleftrightarrow> saw_EOF ?obs \<and> \<not> saw_error ?obs \<and> int (length (rows_read ?obs)) \<le> m"
  have flags: "(gotEOF ?r' \<and> \<not> gotErr ?r' \<and> \<not> maxRowsHit ?r') = C"
    unfolding C_def using eof err hit by auto
  have close: "rr_Close ?r' j =
     (case dr_close d of
        Some e \<Rightarrow> (?r'\<lparr>gotErr := True\<rparr>, j, Some e)
      | None \<Rightarrow> if C then (?r', s (item ?r') j, None) else (?r', j, None))"
    unfolding rr_Close_def flags fr by (rule refl)
  define I where "I = \<lparr>Cols = (if DoColumns \<in> set cs then dr_columns d else []), Rows = rows_read ?obs\<rparr>"
  have "C \<Longrightarrow> item ?r' = I"
    using it by (simp add: C_def I_def)
  then have "rr_Close ?r' j =
     (case dr_close d of
        Some e \<Rightarrow> (?r'\<lparr>gotErr := True\<rparr>, j, Some e)
      | None \<Rightarrow> if C then (?r', s I j, None) else (?r', j, None))"
    unfolding close by (cases C) (simp_all split: option.splits)
  then show ?thesis unfolding C_def I_def Let_def .
qed

lemma recorder_close_calls:
  assumes "0 \<le> maxRows attrs"
  shows "(let obs = snd (dr_run d cs);
              res = rr_Close (fst (rr_run (newRowsRecorder (cacheSetter hash attrs) d (maxRows attrs)) cs)) j;
              cached = \<lparr>Cols = (if DoColumns \<in> set cs then dr_columns d else []), Rows = rows_read obs\<rparr>
          in snd (snd res) = dr_close d
           \<and> calls (fst (snd res)) = calls j @
               (if dr_close d = None \<and> saw_EOF obs \<and> \<not> saw_error obs
                    \<and> int (length (rows_read obs)) \<le> maxRows attrs
                then CallSet hash cached (ttl_duration attrs)
                       # (case c_Set j hash cached (ttl_duration attrs) of
                            None \<Rightarrow> []
                          | Some e \<Rightarrow> if onErr j then [CallOnErr (Wrap ''Cache.Set failed: '' e)] else [])
                else []))"
proof -
  define obs where "obs = snd (dr_run d cs)"
  define cached where
    "cached = \<lparr>Cols = (if DoColumns \<in> set cs then dr_columns d else []), Rows = rows_read obs\<rparr>"
  define C where "C \<longleftrightarrow> saw_EOF obs \<and> \<not> saw_error obs \<and> int (length (rows_read obs)) \<le> maxRows attrs"
  define r' where "r' = fst (rr_run (newRowsRecorder (cacheSetter hash attrs) d (maxRows attrs)) cs)"
  have close: "rr_Close r' j =
     (case dr_close d of
        Some e \<Rightarrow> (r'\<lparr>gotErr := True\<rparr>, j, Some e)
      | None \<Rightarrow> if C then (r', cacheSetter hash attrs cached j, None) else (r', j, None))"
    using rr_Close_after_run [OF assms, of "cacheSetter hash attrs" d cs j]
    unfolding Let_def obs_def [symmetric] cached_def [symmetric] C_def [symmetric] r'_def [symmetric] .
  have "snd (snd (rr_Close r' j)) = dr_close d
      \<and> calls (fst (snd (rr_Close r' j))) = calls j @
               (if dr_close d = None \<and> C
                then CallSet hash cached (ttl_duration attrs)
                       # (case c_Set j hash cached (ttl_duration attrs) of
                            None \<Rightarrow> []
                          | Some e \<Rightarrow> if onErr j then [CallOnErr (Wrap ''Cache.Set failed: '' e)] else [])
                else [])"
    unfolding close
    by (cases "dr_close d"; cases C; cases "c_Set j hash cached (ttl_duration attrs)")
       (simp_all add: cacheSetter_calls)
  then show ?thesis
    unfolding Let_def obs_def [symmetric] cached_def [symmetric] r'_def [symmetric] C_def
    by simp
qed

lemma rr_Close_set_failed:
  assumes "0 \<le> maxRows attrs" "dr_close d = None" "saw_EOF (snd (dr_run d cs))"
    "\<not> saw_error (snd (dr_run d cs))"
    "int (length (rows_read (snd (dr_run d cs)))) \<le> maxRows attrs"
    "c_Set j hash \<lparr>Cols = (if DoColumns \<in> set cs then dr_columns d else []),
                  Rows = rows_read (snd (dr_run d cs))\<rparr> (ttl_duration attrs) = Some e"
  shows "rr_Close (fst (rr_run (newRowsRecorder (cacheSetter hash attrs) d (maxRows attrs)) cs)) j =
     (fst (rr_run (newRowsRecorder (cacheSetter hash attrs) d (maxRows attrs)) cs),
      j\<lparr>stats := (stats j)\<lparr>Errors := Errors (stats j) + 1\<rparr>,
        calls := calls j
          @ [CallSet hash \<lparr>Cols = (if DoColumns \<in> set cs then dr_columns d else []),
                           Rows = rows_read (snd (dr_run d cs))\<rparr> (ttl_duration attrs)]
          @ (if onErr j then [CallOnErr (Wrap ''Cache.Set failed: '' e)] else [])\<rparr>,
      None)"
proof -
  define cached where
    "cached = \<lparr>Cols = (if DoColumns \<in> set cs then dr_columns d else []),
               Rows = rows_read (snd (dr_run d cs))\<rparr>"
  have C: "saw_EOF (snd (dr_run d cs)) \<and> \<not> saw_error (snd (dr_run d cs))
      \<and> int (length (rows_read (snd (dr_run d cs)))) \<le> maxRows attrs"
    using assms(3-5) by simp
  have "rr_Close (fst (rr_run (newRowsRecorder (cacheSetter hash attrs) d (maxRows attrs)) cs)) j =
     (fst (rr_run (newRowsRecorder (cacheSetter hash attrs) d (maxRows attrs)) cs),
      cacheSetter hash attrs cached j, None)"
    using rr_Close_after_run [OF assms(1), of "cacheSetter hash attrs" d cs j]
    unfolding Let_def cached_def [symmetric] assms(2) if_P [OF C] by simp
  moreover have "cacheSetter hash attrs cached j =
      j\<lparr>stats := (stats j)\<lparr>Errors := Errors (stats j) + 1\<rparr>,
        calls := calls j @ [CallSet hash cached (ttl_duration attrs)]
          @ (if onErr j then [CallOnErr (Wrap ''Cache.Set failed: '' e)] else [])\<rparr>"
    using assms(6) unfolding cached_def [symmetric] by (simp add: cacheSetter_calls)
  ultimately show ?thesis unfolding cached_def by simp
qed

section \<open>Lemmas about schedules of atomic operations\<close>

lemma run_schedule_append:
  "run_schedule (xs @ ys) st = run_schedule ys (run_schedule xs st)"
  by (induction xs arbitrary: st) simp_all

lemma run_schedule_counters:
  "fst (run_schedule ops (i, s)) =
     i\<lparr>stats := \<lparr>Hits = Hits (stats i) + of_nat (count_list ops AddHits),
                  Misses = Misses (stats i) + of_nat (count_list ops AddMisses),
                  Errors = Errors (stats i) + of_nat (count_list ops AddErrors)\<rparr>\<rparr>"
proof (induction ops arbitrary: i s)
  case Nil
  then show ?case by simp
next
  case (Cons op ops)
  show ?case
    by (cases op) (simp_all add: Cons.IH add_Hits_def add_Misses_def add_Errors_def)
qed

lemma run_schedule_adds_snapshot:
  "list_all is_add ops \<Longrightarrow> snd (run_schedule ops (i, s)) = s"
proof (induction ops arbitrary: i s)
  case Nil
  then show ?case by simp
next
  case (Cons op ops)
  then show ?case by (cases op) (simp_all add: is_add_def)
qed

lemma run_schedule_adds:
  assumes "list_all is_add ops"
  shows "run_schedule ops (i, s) =
     (i\<lparr>stats := \<lparr>Hits = Hits (stats i) + of_nat (count_list ops AddHits),
                  Misses = Misses (stats i) + of_nat (count_list ops AddMisses),
                  Errors = Errors (stats i) + of_nat (count_list ops AddErrors)\<rparr>\<rparr>, s)"
  using run_schedule_counters [of ops i s] run_schedule_adds_snapshot [OF assms, of i s]
  by (cases "run_schedule ops (i, s)") simp

lemma Stats_snapshot:
  assumes "list_all is_add A" "list_all is_add B" "list_all is_add C" "list_all is_add D"
  shows "snd (run_schedule (A @ [LoadHits] @ B @ [LoadMisses] @ C @ [LoadErrors] @ D) (i, s)) =
     \<lparr>Hits = Hits (stats i) + of_nat (count_list A AddHits),
      Misses = Misses (stats i) + of_nat (count_list (A @ B) AddMisses),
      Errors = Errors (stats i) + of_nat (count_list (A @ B @ C) AddErrors)\<rparr>"
  by (simp add: run_schedule_append run_schedule_adds [OF assms(1)] run_schedule_adds [OF assms(2)]
      run_schedule_adds [OF assms(3)] run_schedule_adds [OF assms(4)] add.assoc)

section \<open>The example data, evaluated\<close>

lemma demo_run:
  "snd (dr_run (demo_rows ce) demo_calls) =
     [([VString ''Alice''], None), ([VString ''Bob''], None), ([VString ''Bob''], Some EOF)]"
  by (simp add: demo_calls_def demo_rows_def dr_Next_def)

lemma demo_rows_read:
  "rows_read [([VString ''Alice''], None), ([VString ''Bob''], None), ([VString ''Bob''], Some EOF)]
     = [[VString ''Alice''], [VString ''Bob'']]"
  "saw_EOF [([VString ''Alice''], None), ([VString ''Bob''], None), ([VString ''Bob''], Some EOF)]"
  "\<not> saw_error [([VString ''Alice''], None), ([VString ''Bob''], None), ([VString ''Bob''], Some EOF)]"
  by (simp_all add: rows_read_def saw_EOF_def saw_error_def)

lemma demo_ttl: "ttl_duration \<lparr>ttl = 5, maxRows = 10\<rparr> = 5000000000"
  by (simp add: ttl_duration_def)

lemma getAttrs_plain_query: "getAttrs ''SELECT name FROM users WHERE age > ?'' = None"
  by code_simp

lemma negative_ttl_query_count:
  "match_count (''-- @cache-ttl -30'' @ [CHR 0x0A] @ ''-- @cache-max-rows 10'' @ [CHR 0x0A]
      @ ''SELECT name FROM users WHERE age > ?'') = 1"
  by code_simp

lemma email_query_unmatched:
  "no_match_within ''SELECT 1 WHERE email = $$a@b.c$$ -- ''
     (''@cache-ttl '' @ ''99999999999999999999'' @ '' -- @cache-ttl -30 '' @ ''@cache-max-rows '' @ ''007'' @ ''x'')"
  "no_match_within '' -- @cache-ttl -30 '' (''@cache-max-rows '' @ ''007'' @ ''x'')"
  by code_simp+

section \<open>The claims\<close>

subsection \<open>C1: when a miss is committed to the cache\<close>

text \<open>
  Claim C1, as amended. After a cache miss (the interceptor is enabled, the text carries
  a policy, the key function succeeds, \<open>Get\<close> reports no item and no error, the live
  query succeeds) both entry points return a row-capture adapter over the live cursor.
  Whatever \<open>Next\<close> and \<open>Columns\<close> calls the caller then makes, the adapter hands back what
  the live cursor hands back, its \<open>Close\<close> returns the live cursor's close error, and
  \<open>Close\<close> makes exactly one \<open>Set\<close> call if the live cursor's \<open>Close\<close> returned no error,
  a \<open>Next\<close> call returned \<open>io.EOF\<close>, no \<open>Next\<close> call returned another error and the rows
  handed back before \<open>io.EOF\<close> are at most the parsed max-row bound; otherwise it makes
  no \<open>Set\<close> call. The \<open>Set\<close> call carries the key, the column names captured by
  \<open>Columns\<close>, those rows, and \<open>time.Duration(ttl) * time.Second\<close>, which is \<open>ttl\<close> seconds
  for every parsed \<open>ttl\<close> up to 9223372036.
\<close>

theorem miss_commits_on_clean_close:
  assumes "\<not> disabled i" "getAttrs query = Some attrs" "hashFunc i query args = (hash, None)"
    "c_Get i hash = (it, False, None)" "conn query args = QueryRows d" "sconn args = QueryRows d"
  shows "\<exists>i1 i2 r.
      ConnQueryContext i conn query args = (i1, RecorderRows r, None)
    \<and> StmtQueryContext i sconn query args = (i2, RecorderRows r, None)
    \<and> (\<forall>cs j.
         (let obs = snd (dr_run d cs);
              res = rr_Close (fst (rr_run r cs)) j;
              cached = \<lparr>Cols = (if DoColumns \<in> set cs then dr_columns d else []), Rows = rows_read obs\<rparr>
          in snd (rr_run r cs) = obs
           \<and> snd (snd res) = dr_close d
           \<and> calls (fst (snd res)) = calls j @
               (if dr_close d = None \<and> saw_EOF obs \<and> \<not> saw_error obs
                    \<and> int (length (rows_read obs)) \<le> maxRows attrs
                then CallSet hash cached (ttl_duration attrs)
                       # (case c_Set j hash cached (ttl_duration attrs) of
                            None \<Rightarrow> []
                          | Some e \<Rightarrow> if onErr j then [CallOnErr (Wrap ''Cache.Set failed: '' e)] else [])
                else [])))
    \<and> (ttl attrs \<le> 9223372036 \<longrightarrow> sint (ttl_duration attrs) = ttl attrs * 1000000000)"
proof -
  from getAttrs_range [OF assms(2)] have rng: "0 \<le> maxRows attrs" "0 \<le> ttl attrs"
    by (simp_all add: in_range_def)
  let ?r = "newRowsRecorder (cacheSetter hash attrs) d (maxRows attrs)"
  have "ConnQueryContext i conn query args =
      (i\<lparr>stats := (stats i)\<lparr>Misses := Misses (stats i) + 1\<rparr>,
         calls := calls i @ [CallHashFunc query args, CallGet hash, CallConnQuery query args]\<rparr>,
       RecorderRows ?r, None)"
    unfolding ConnQueryContext_def queryContext_miss [OF assms(1-4)]
    by (simp add: assms(5) err_of_def)
  moreover have "StmtQueryContext i sconn query args =
      (i\<lparr>stats := (stats i)\<lparr>Misses := Misses (stats i) + 1\<rparr>,
         calls := calls i @ [CallHashFunc query args, CallGet hash, CallStmtQuery args]\<rparr>,
       RecorderRows ?r, None)"
    unfolding StmtQueryContext_def queryContext_miss [OF assms(1-4)]
    by (simp add: assms(6) err_of_def)
  moreover have "ttl attrs \<le> 9223372036 \<longrightarrow> sint (ttl_duration attrs) = ttl attrs * 1000000000"
    using ttl_duration_seconds [OF rng(2)] by blast
  moreover have "\<forall>cs j.
         (let obs = snd (dr_run d cs);
              res = rr_Close (fst (rr_run ?r cs)) j;
              cached = \<lparr>Cols = (if DoColumns \<in> set cs then dr_columns d else []), Rows = rows_read obs\<rparr>
          in snd (rr_run ?r cs) = obs
           \<and> snd (snd res) = dr_close d
           \<and> calls (fst (snd res)) = calls j @
               (if dr_close d = None \<and> saw_EOF obs \<and> \<not> saw_error obs
                    \<and> int (length (rows_read obs)) \<le> maxRows attrs
                then CallSet hash cached (ttl_duration attrs)
                       # (case c_Set j hash cached (ttl_duration attrs) of
                            None \<Rightarrow> []
                          | Some e \<Rightarrow> if onErr j then [CallOnErr (Wrap ''Cache.Set failed: '' e)] else [])
                else []))"
  proof (intro allI)
    fix cs j
    have "snd (rr_run ?r cs) = snd (dr_run d cs)"
      using rr_run_transparent [of ?r cs] by (simp add: newRowsRecorder_def)
    with recorder_close_calls [OF rng(1), of d cs hash j]
    show "(let obs = snd (dr_run d cs);
              res = rr_Close (fst (rr_run ?r cs)) j;
              cached = \<lparr>Cols = (if DoColumns \<in> set cs then dr_columns d else []), Rows = rows_read obs\<rparr>
          in snd (rr_run ?r cs) = obs
           \<and> snd (snd res) = dr_close d
           \<and> calls (fst (snd res)) = calls j @
               (if dr_close d = None \<and> saw_EOF obs \<and> \<not> saw_error obs
                    \<and> int (length (rows_read obs)) \<le> maxRows attrs
                then CallSet hash cached (ttl_duration attrs)
                       # (case c_Set j hash cached (ttl_duration attrs) of
                            None \<Rightarrow> []
                          | Some e \<Rightarrow> if onErr j then [CallOnErr (Wrap ''Cache.Set failed: '' e)] else [])
                else []))"
      by (simp add: Let_def)
  qed
  ultimately show ?thesis by blast
qed

theorem miss_commits_on_clean_close_witness:
  "getAttrs demo_query = Some \<lparr>ttl = 5, maxRows = 10\<rparr>
   \<and> (\<exists>i1 r. ConnQueryContext (demo_interceptor (\<lambda>k. (None, False, None)) (''key'', None) None)
                (\<lambda>q a. QueryRows (demo_rows None)) demo_query demo_args = (i1, RecorderRows r, None)
        \<and> snd (rr_run r demo_calls) =
            [([VString ''Alice''], None), ([VString ''Bob''], None), ([VString ''Bob''], Some EOF)]
        \<and> calls (fst (snd (rr_Close (fst (rr_run r demo_calls))
              (demo_interceptor (\<lambda>k. (None, False, None)) (''key'', None) None))))
            = [CallSet ''key'' demo_item 5000000000])
   \<and> sint (ttl_duration \<lparr>ttl = 5, maxRows = 10\<rparr>) = 5 * 1000000000"
proof -
  let ?i = "demo_interceptor (\<lambda>k. (None, False, None)) (''key'', None) None"
  have h: "\<not> disabled ?i" "hashFunc ?i demo_query demo_args = (''key'', None)"
    "c_Get ?i ''key'' = (None, False, None)" "calls ?i = []"
    "c_Set ?i = (\<lambda>k it d. None)"
    by (simp_all add: demo_interceptor_def)
  have l: "(\<lambda>q a. QueryRows (demo_rows None)) demo_query demo_args = QueryRows (demo_rows None)"
    "(\<lambda>a. QueryRows (demo_rows None)) demo_args = QueryRows (demo_rows None)"
    by simp_all
  from miss_commits_on_clean_close [where conn = "\<lambda>q a. QueryRows (demo_rows None)"
      and sconn = "\<lambda>a. QueryRows (demo_rows None)", OF h(1) getAttrs_demo_query h(2,3) l]
  obtain i1 r where
    r: "ConnQueryContext ?i (\<lambda>q a. QueryRows (demo_rows None)) demo_query demo_args
          = (i1, RecorderRows r, None)"
    and c: "\<forall>cs j.
         (let obs = snd (dr_run (demo_rows None) cs);
              res = rr_Close (fst (rr_run r cs)) j;
              cached = \<lparr>Cols = (if DoColumns \<in> set cs then dr_columns (demo_rows None) else []), Rows = rows_read obs\<rparr>
          in snd (rr_run r cs) = obs
           \<and> snd (snd res) = dr_close (demo_rows None)
           \<and> calls (fst (snd res)) = calls j @
               (if dr_close (demo_rows None) = None \<and> saw_EOF obs \<and> \<not> saw_error obs
                    \<and> int (length (rows_read obs)) \<le> maxRows \<lparr>ttl = 5, maxRows = 10\<rparr>
                then CallSet ''key'' cached (ttl_duration \<lparr>ttl = 5, maxRows = 10\<rparr>)
                       # (case c_Set j ''key'' cached (ttl_duration \<lparr>ttl = 5, maxRows = 10\<rparr>) of
                            None \<Rightarrow> []
                          | Some e \<Rightarrow> if onErr j then [CallOnErr (Wrap ''Cache.Set failed: '' e)] else [])
                else []))"
    and t: "ttl \<lparr>ttl = 5, maxRows = 10\<rparr> \<le> 9223372036 \<longrightarrow>
       sint (ttl_duration \<lparr>ttl = 5, maxRows = 10\<rparr>) = ttl \<lparr>ttl = 5, maxRows = 10\<rparr> * 1000000000"
    by blast
  let ?L = "[([VString ''Alice''], None), ([VString ''Bob''], None), ([VString ''Bob''], Some EOF)]"
  note c1 = c [rule_format, of demo_calls ?i, unfolded Let_def demo_run]
  have cond: "dr_close (demo_rows None) = None \<and> saw_EOF ?L \<and> \<not> saw_error ?L
      \<and> int (length (rows_read ?L)) \<le> maxRows \<lparr>ttl = 5, maxRows = 10\<rparr>"
    by (simp add: demo_rows_read demo_rows_def)
  have cols: "(if DoColumns \<in> set demo_calls then dr_columns (demo_rows None) else []) = [''name'']"
    by (simp add: demo_calls_def demo_rows_def)
  from c1 have "snd (rr_run r demo_calls) = ?L
        \<and> calls (fst (snd (rr_Close (fst (rr_run r demo_calls)) ?i)))
            = [CallSet ''key'' demo_item 5000000000]"
    using cond cols
    by (simp add: demo_rows_read demo_ttl h(4,5) demo_item_def)
  with r t getAttrs_demo_query show ?thesis by auto
qed

text \<open>
  Claim C1 as stated fails: the example query misses the cache, the caller reads both
  rows and reaches end-of-data with no read error and within the bound of 10 rows, but
  the live cursor's \<open>Close\<close> fails, and \<open>Close\<close> of the adapter makes no \<open>Set\<close> call.
\<close>

theorem close_error_blocks_commit_counterexample:
  "ConnQueryContext (demo_interceptor (\<lambda>k. (None, False, None)) (''key'', None) None)
      (\<lambda>q a. QueryRows (demo_rows (Some (Err ''close failed'')))) demo_query demo_args
     = ((demo_interceptor (\<lambda>k. (None, False, None)) (''key'', None) None)
          \<lparr>stats := \<lparr>Hits = 0, Misses = 1, Errors = 0\<rparr>,
           calls := [CallHashFunc demo_query demo_args, CallGet ''key'',
                     CallConnQuery demo_query demo_args]\<rparr>,
        RecorderRows (newRowsRecorder (cacheSetter ''key'' \<lparr>ttl = 5, maxRows = 10\<rparr>)
                        (demo_rows (Some (Err ''close failed''))) 10),
        None)
   \<and> snd (rr_run (newRowsRecorder (cacheSetter ''key'' \<lparr>ttl = 5, maxRows = 10\<rparr>)
                        (demo_rows (Some (Err ''close failed''))) 10) demo_calls)
       = [([VString ''Alice''], None), ([VString ''Bob''], None), ([VString ''Bob''], Some EOF)]
   \<and> snd (rr_Close (fst (rr_run (newRowsRecorder (cacheSetter ''key'' \<lparr>ttl = 5, maxRows = 10\<rparr>)
                        (demo_rows (Some (Err ''close failed''))) 10) demo_calls))
            ((demo_interceptor (\<lambda>k. (None, False, None)) (''key'', None) None)
               \<lparr>stats := \<lparr>Hits = 0, Misses = 1, Errors = 0\<rparr>,
                calls := [CallHashFunc demo_query demo_args, CallGet ''key'',
                          CallConnQuery demo_query demo_args]\<rparr>))
       = ((demo_interceptor (\<lambda>k. (None, False, None)) (''key'', None) None)
               \<lparr>stats := \<lparr>Hits = 0, Misses = 1, Errors = 0\<rparr>,
                calls := [CallHashFunc demo_query demo_args, CallGet ''key'',
                          CallConnQuery demo_query demo_args]\<rparr>,
          Some (Err ''close failed''))"
  by (simp add: ConnQueryContext_def queryContext_def getAttrs_demo_query checkCache_def
      record_call_def add_Misses_def demo_interceptor_def newRowsRecorder_def demo_calls_def
      demo_rows_def rr_Next_def dr_Next_def rr_Columns_def rr_Close_def)

subsection \<open>C2: a cache hit replays the cached item\<close>

text \<open>
  Claim C2. On a cache hit (the interceptor is enabled, the text carries a policy, the
  key function succeeds and the backend's \<open>Get\<close> returns an item with \<open>found = true\<close> and
  no error) both entry points return a cached cursor and no error; the hit counter has
  grown by one; the only calls made are the key function and \<open>Get\<close>, so the live query
  is not issued. The cursor's \<open>Columns\<close> returns the cached column names, its \<open>Close\<close>
  returns nil, and its successive \<open>Next\<close> calls copy the cached rows in order from index
  zero into \<open>dest\<close> (the whole row when \<open>dest\<close> has the row's length), each with a nil
  error, and return \<open>io.EOF\<close> from the first call after the last row on.
\<close>

theorem cache_hit_replays_item:
  assumes "\<not> disabled i" "getAttrs query = Some attrs" "hashFunc i query args = (hash, None)"
    "c_Get i hash = (Some it, True, None)"
  shows "\<exists>i' c.
       ConnQueryContext i conn query args = (i', CachedRows c, None)
     \<and> StmtQueryContext i sconn query args = (i', CachedRows c, None)
     \<and> stats i' = (stats i)\<lparr>Hits := Hits (stats i) + 1\<rparr>
     \<and> calls i' = calls i @ [CallHashFunc query args, CallGet hash]
     \<and> rc_Columns c = Returns (Cols it)
     \<and> rc_Close c = None
     \<and> (\<forall>dests. \<exists>obs. rc_run c dests = Returns obs \<and> length obs = length dests
           \<and> (\<forall>k<length dests.
                 obs ! k = (if k < length (Rows it)
                            then (go_copy (dests ! k) (Rows it ! k), None)
                            else (dests ! k, Some EOF))
               \<and> (k < length (Rows it) \<and> length (dests ! k) = length (Rows it ! k)
                     \<longrightarrow> obs ! k = (Rows it ! k, None))))"
proof -
  let ?i' = "i\<lparr>stats := (stats i)\<lparr>Hits := Hits (stats i) + 1\<rparr>,
              calls := calls i @ [CallHashFunc query args, CallGet hash]\<rparr>"
  let ?c = "\<lparr>rc_Item = Some it, ptr = 0\<rparr>"
  have replay: "\<exists>obs. rc_run ?c dests = Returns obs \<and> length obs = length dests
           \<and> (\<forall>k<length dests.
                 obs ! k = (if k < length (Rows it)
                            then (go_copy (dests ! k) (Rows it ! k), None)
                            else (dests ! k, Some EOF))
               \<and> (k < length (Rows it) \<and> length (dests ! k) = length (Rows it ! k)
                     \<longrightarrow> obs ! k = (Rows it ! k, None)))" for dests
  proof -
    from rc_run_from [of ?c it dests] obtain obs where obs:
      "rc_run ?c dests = Returns obs" "length obs = length dests"
      "\<forall>k<length dests. obs ! k =
              (if k < length (Rows it)
               then (go_copy (dests ! k) (Rows it ! k), None)
               else (dests ! k, Some EOF))" by auto
    from obs(3) have "\<forall>k<length dests.
         k < length (Rows it) \<and> length (dests ! k) = length (Rows it ! k)
           \<longrightarrow> obs ! k = (Rows it ! k, None)"
      by (simp add: go_copy_same_length)
    with obs show ?thesis by blast
  qed
  have "ConnQueryContext i conn query args = (?i', CachedRows ?c, None)"
    unfolding ConnQueryContext_def by (rule queryContext_hit [OF assms])
  moreover have "StmtQueryContext i sconn query args = (?i', CachedRows ?c, None)"
    unfolding StmtQueryContext_def by (rule queryContext_hit [OF assms])
  moreover have "rc_Columns ?c = Returns (Cols it)" by (simp add: rc_Columns_def)
  moreover have "rc_Close ?c = None" by (simp add: rc_Close_def)
  moreover have "stats ?i' = (stats i)\<lparr>Hits := Hits (stats i) + 1\<rparr>" by simp
  moreover have "calls ?i' = calls i @ [CallHashFunc query args, CallGet hash]" by simp
  ultimately show ?thesis using replay by blast
qed

theorem cache_hit_replays_item_witness:
  "getAttrs demo_query = Some \<lparr>ttl = 5, maxRows = 10\<rparr>
   \<and> ConnQueryContext (demo_interceptor (\<lambda>k. (Some demo_item, True, None)) (''key'', None) None)
        (\<lambda>q a. QueryRows (demo_rows None)) demo_query demo_args
     = ((demo_interceptor (\<lambda>k. (Some demo_item, True, None)) (''key'', None) None)
          \<lparr>stats := \<lparr>Hits = 1, Misses = 0, Errors = 0\<rparr>,
           calls := [CallHashFunc demo_query demo_args, CallGet ''key'']\<rparr>,
        CachedRows \<lparr>rc_Item = Some demo_item, ptr = 0\<rparr>, None)
   \<and> rc_run \<lparr>rc_Item = Some demo_item, ptr = 0\<rparr> [[VNil], [VNil], [VNil]]
     = Returns [([VString ''Alice''], None), ([VString ''Bob''], None), ([VNil], Some EOF)]"
proof -
  let ?i = "demo_interceptor (\<lambda>k. (Some demo_item, True, None)) (''key'', None) None"
  have h: "\<not> disabled ?i" "hashFunc ?i demo_query demo_args = (''key'', None)"
    "c_Get ?i ''key'' = (Some demo_item, True, None)"
    by (simp_all add: demo_interceptor_def)
  from cache_hit_replays_item [OF h(1) getAttrs_demo_query h(2,3),
      of "\<lambda>q a. QueryRows (demo_rows None)" "\<lambda>a. QueryRows (demo_rows None)"]
  obtain i' c where
    r: "ConnQueryContext ?i (\<lambda>q a. QueryRows (demo_rows None)) demo_query demo_args
          = (i', CachedRows c, None)"
    and s: "stats i' = (stats ?i)\<lparr>Hits := Hits (stats ?i) + 1\<rparr>"
    by blast
  have e: "ConnQueryContext ?i (\<lambda>q a. QueryRows (demo_rows None)) demo_query demo_args
     = (?i\<lparr>stats := \<lparr>Hits = 1, Misses = 0, Errors = 0\<rparr>,
           calls := [CallHashFunc demo_query demo_args, CallGet ''key'']\<rparr>,
        CachedRows \<lparr>rc_Item = Some demo_item, ptr = 0\<rparr>, None)"
    using r s
    by (simp add: ConnQueryContext_def queryContext_def getAttrs_demo_query checkCache_def
        record_call_def add_Hits_def demo_interceptor_def)
  have "rc_run \<lparr>rc_Item = Some demo_item, ptr = 0\<rparr> [[VNil], [VNil], [VNil]]
     = Returns [([VString ''Alice''], None), ([VString ''Bob''], None), ([VNil], Some EOF)]"
    by (simp add: rc_Next_def demo_item_def go_copy_def)
  with e getAttrs_demo_query show ?thesis by blast
qed

subsection \<open>C3: a policy needs both directives\<close>

text \<open>
  Claim C3, at an input where the code departs from it. The text below carries the
  directive \<open>@cache-ttl\<close> twice and no \<open>@cache-max-rows\<close> directive. \<open>getAttrs\<close> counts two
  matches of the pattern and returns a policy, with the second time-to-live and a
  max-row bound of zero.
\<close>

theorem duplicate_directive_policy:
  "getAttrs (''-- @cache-ttl 5'' @ [CHR 0x0A] @ ''-- @cache-ttl 10'' @ [CHR 0x0A]
      @ ''SELECT name FROM users WHERE age > ?'') = Some \<lparr>ttl = 10, maxRows = 0\<rparr>
   \<and> directive_present ''@cache-ttl'' (''-- @cache-ttl 5'' @ [CHR 0x0A] @ ''-- @cache-ttl 10''
      @ [CHR 0x0A] @ ''SELECT name FROM users WHERE age > ?'')
   \<and> \<not> directive_present ''@cache-max-rows'' (''-- @cache-ttl 5'' @ [CHR 0x0A] @ ''-- @cache-ttl 10''
      @ [CHR 0x0A] @ ''SELECT name FROM users WHERE age > ?'')"
  by code_simp

subsection \<open>C4: failures of the caching side never fail the query\<close>

text \<open>
  Claim C4. For an enabled interceptor and a text with a policy: when the key function
  fails, the error counter grows by one, the hook (if set) is called with the wrapped
  error, the live query is issued and its rows and error are returned as they are.
  When \<open>Get\<close> fails, the error counter grows by one, the hook (if set) is called with
  the wrapped error, the live query is issued, and what is returned is the row-capture
  adapter over the live cursor with a nil error, or the live query's rows and error
  when it failed: the rows and error returned when the backend reports a miss. When
  \<open>Set\<close> fails inside the commit at \<open>Close\<close>, \<open>Close\<close> returns nil and leaves the adapter
  as it was, and the interceptor afterwards has its error counter grown by one and the
  \<open>Set\<close> call and the hook call (if set) recorded. \<open>Close\<close> of the adapter always returns
  the live cursor's close result and leaves cursor and buffered item alone, and what a
  caller reads through the adapter is what the live cursor hands back.
\<close>

theorem cache_failures_do_not_fail_query:
  assumes "\<not> disabled i" "getAttrs query = Some attrs"
  shows
   "(\<forall>hash e. hashFunc i query args = (hash, Some e) \<longrightarrow>
        ConnQueryContext i conn query args =
          (i\<lparr>stats := (stats i)\<lparr>Errors := Errors (stats i) + 1\<rparr>,
             calls := calls i @ [CallHashFunc query args]
                        @ (if onErr i then [CallOnErr (Wrap ''HashFunc failed: '' e)] else [])
                        @ [CallConnQuery query args]\<rparr>,
           rows_of (conn query args), err_of (conn query args))
      \<and> StmtQueryContext i sconn query args =
          (i\<lparr>stats := (stats i)\<lparr>Errors := Errors (stats i) + 1\<rparr>,
             calls := calls i @ [CallHashFunc query args]
                        @ (if onErr i then [CallOnErr (Wrap ''HashFunc failed: '' e)] else [])
                        @ [CallStmtQuery args]\<rparr>,
           rows_of (sconn args), err_of (sconn args)))
  \<and> (\<forall>hash it ok e. hashFunc i query args = (hash, None) \<and> c_Get i hash = (it, ok, Some e) \<longrightarrow>
        ConnQueryContext i conn query args =
          (i\<lparr>stats := (stats i)\<lparr>Errors := Errors (stats i) + 1\<rparr>,
             calls := calls i @ [CallHashFunc query args, CallGet hash]
                        @ (if onErr i then [CallOnErr (Wrap ''Cache.Get failed: '' e)] else [])
                        @ [CallConnQuery query args]\<rparr>,
           (case conn query args of
             QueryRows d \<Rightarrow>
               RecorderRows (newRowsRecorder (cacheSetter hash attrs) d (maxRows attrs))
           | QueryError rows err \<Rightarrow> rows_of (conn query args)),
           err_of (conn query args))
      \<and> StmtQueryContext i sconn query args =
          (i\<lparr>stats := (stats i)\<lparr>Errors := Errors (stats i) + 1\<rparr>,
             calls := calls i @ [CallHashFunc query args, CallGet hash]
                        @ (if onErr i then [CallOnErr (Wrap ''Cache.Get failed: '' e)] else [])
                        @ [CallStmtQuery args]\<rparr>,
           (case sconn args of
             QueryRows d \<Rightarrow>
               RecorderRows (newRowsRecorder (cacheSetter hash attrs) d (maxRows attrs))
           | QueryError rows err \<Rightarrow> rows_of (sconn args)),
           err_of (sconn args))
      \<and> snd (ConnQueryContext i conn query args) =
          snd (ConnQueryContext (i\<lparr>c_Get := \<lambda>k. (None, False, None)\<rparr>) conn query args)
      \<and> snd (StmtQueryContext i sconn query args) =
          snd (StmtQueryContext (i\<lparr>c_Get := \<lambda>k. (None, False, None)\<rparr>) sconn query args))
  \<and> (\<forall>hash d cs j e.
        dr_close d = None \<and> saw_EOF (snd (dr_run d cs)) \<and> \<not> saw_error (snd (dr_run d cs))
        \<and> int (length (rows_read (snd (dr_run d cs)))) \<le> maxRows attrs
        \<and> c_Set j hash \<lparr>Cols = (if DoColumns \<in> set cs then dr_columns d else []),
                       Rows = rows_read (snd (dr_run d cs))\<rparr> (ttl_duration attrs) = Some e \<longrightarrow>
        rr_Close (fst (rr_run (newRowsRecorder (cacheSetter hash attrs) d (maxRows attrs)) cs)) j =
          (fst (rr_run (newRowsRecorder (cacheSetter hash attrs) d (maxRows attrs)) cs),
           j\<lparr>stats := (stats j)\<lparr>Errors := Errors (stats j) + 1\<rparr>,
             calls := calls j
               @ [CallSet hash \<lparr>Cols = (if DoColumns \<in> set cs then dr_columns d else []),
                                Rows = rows_read (snd (dr_run d cs))\<rparr> (ttl_duration attrs)]
               @ (if onErr j then [CallOnErr (Wrap ''Cache.Set failed: '' e)] else [])\<rparr>,
           None))
  \<and> (\<forall>r j. snd (snd (rr_Close r j)) = dr_close (dr r)
          \<and> dr (fst (rr_Close r j)) = dr r \<and> item (fst (rr_Close r j)) = item r)
  \<and> (\<forall>s d m cs. snd (rr_run (newRowsRecorder s d m) cs) = snd (dr_run d cs)
          \<and> snd (rr_Columns (fst (rr_run (newRowsRecorder s d m) cs))) = dr_columns d)"
proof -
  from getAttrs_range [OF assms(2)] have rng: "0 \<le> maxRows attrs" by (simp add: in_range_def)
  have hashfail: "(\<forall>hash e. hashFunc i query args = (hash, Some e) \<longrightarrow>
        ConnQueryContext i conn query args =
          (i\<lparr>stats := (stats i)\<lparr>Errors := Errors (stats i) + 1\<rparr>,
             calls := calls i @ [CallHashFunc query args]
                        @ (if onErr i then [CallOnErr (Wrap ''HashFunc failed: '' e)] else [])
                        @ [CallConnQuery query args]\<rparr>,
           rows_of (conn query args), err_of (conn query args))
      \<and> StmtQueryContext i sconn query args =
          (i\<lparr>stats := (stats i)\<lparr>Errors := Errors (stats i) + 1\<rparr>,
             calls := calls i @ [CallHashFunc query args]
                        @ (if onErr i then [CallOnErr (Wrap ''HashFunc failed: '' e)] else [])
                        @ [CallStmtQuery args]\<rparr>,
           rows_of (sconn args), err_of (sconn args)))"
    unfolding ConnQueryContext_def StmtQueryContext_def
    using queryContext_hash_failed [OF assms] by blast
  have getfail: "(\<forall>hash it ok e. hashFunc i query args = (hash, None) \<and> c_Get i hash = (it, ok, Some e) \<longrightarrow>
        ConnQueryContext i conn query args =
          (i\<lparr>stats := (stats i)\<lparr>Errors := Errors (stats i) + 1\<rparr>,
             calls := calls i @ [CallHashFunc query args, CallGet hash]
                        @ (if onErr i then [CallOnErr (Wrap ''Cache.Get failed: '' e)] else [])
                        @ [CallConnQuery query args]\<rparr>,
           (case conn query args of
             QueryRows d \<Rightarrow>
               RecorderRows (newRowsRecorder (cacheSetter hash attrs) d (maxRows attrs))
           | QueryError rows err \<Rightarrow> rows_of (conn query args)),
           err_of (conn query args))
      \<and> StmtQueryContext i sconn query args =
          (i\<lparr>stats := (stats i)\<lparr>Errors := Errors (stats i) + 1\<rparr>,
             calls := calls i @ [CallHashFunc query args, CallGet hash]
                        @ (if onErr i then [CallOnErr (Wrap ''Cache.Get failed: '' e)] else [])
                        @ [CallStmtQuery args]\<rparr>,
           (case sconn args of
             QueryRows d \<Rightarrow>
               RecorderRows (newRowsRecorder (cacheSetter hash attrs) d (maxRows attrs))
           | QueryError rows err \<Rightarrow> rows_of (sconn args)),
           err_of (sconn args))
      \<and> snd (ConnQueryContext i conn query args) =
          snd (ConnQueryContext (i\<lparr>c_Get := \<lambda>k. (None, False, None)\<rparr>) conn query args)
      \<and> snd (StmtQueryContext i sconn query args) =
          snd (StmtQueryContext (i\<lparr>c_Get := \<lambda>k. (None, False, None)\<rparr>) sconn query args))"
  proof (intro allI impI)
    fix hash it ok e
    assume a: "hashFunc i query args = (hash, None) \<and> c_Get i hash = (it, ok, Some e)"
    let ?m = "i\<lparr>c_Get := \<lambda>k. (None, False, None)\<rparr>"
    have m: "\<not> disabled ?m" "hashFunc ?m query args = (hash, None)"
      "c_Get ?m hash = (None, False, None)"
      using assms(1) a by simp_all
    note f = queryContext_get_failed [OF assms conjunct1 [OF a] conjunct2 [OF a]]
    note g = queryContext_miss [OF m(1) assms(2) m(2,3)]
    show "ConnQueryContext i conn query args =
          (i\<lparr>stats := (stats i)\<lparr>Errors := Errors (stats i) + 1\<rparr>,
             calls := calls i @ [CallHashFunc query args, CallGet hash]
                        @ (if onErr i then [CallOnErr (Wrap ''Cache.Get failed: '' e)] else [])
                        @ [CallConnQuery query args]\<rparr>,
           (case conn query args of
             QueryRows d \<Rightarrow>
               RecorderRows (newRowsRecorder (cacheSetter hash attrs) d (maxRows attrs))
           | QueryError rows err \<Rightarrow> rows_of (conn query args)),
           err_of (conn query args))
      \<and> StmtQueryContext i sconn query args =
          (i\<lparr>stats := (stats i)\<lparr>Errors := Errors (stats i) + 1\<rparr>,
             calls := calls i @ [CallHashFunc query args, CallGet hash]
                        @ (if onErr i then [CallOnErr (Wrap ''Cache.Get failed: '' e)] else [])
                        @ [CallStmtQuery args]\<rparr>,
           (case sconn args of
             QueryRows d \<Rightarrow>
               RecorderRows (newRowsRecorder (cacheSetter hash attrs) d (maxRows attrs))
           | QueryError rows err \<Rightarrow> rows_of (sconn args)),
           err_of (sconn args))
      \<and> snd (ConnQueryContext i conn query args) =
          snd (ConnQueryContext (i\<lparr>c_Get := \<lambda>k. (None, False, None)\<rparr>) conn query args)
      \<and> snd (StmtQueryContext i sconn query args) =
          snd (StmtQueryContext (i\<lparr>c_Get := \<lambda>k. (None, False, None)\<rparr>) sconn query args)"
      unfolding ConnQueryContext_def StmtQueryContext_def f g by simp
  qed
  have setfail: "(\<forall>hash d cs j e.
        dr_close d = None \<and> saw_EOF (snd (dr_run d cs)) \<and> \<not> saw_error (snd (dr_run d cs))
        \<and> int (length (rows_read (snd (dr_run d cs)))) \<le> maxRows attrs
        \<and> c_Set j hash \<lparr>Cols = (if DoColumns \<in> set cs then dr_columns d else []),
                       Rows = rows_read (snd (dr_run d cs))\<rparr> (ttl_duration attrs) = Some e \<longrightarrow>
        rr_Close (fst (rr_run (newRowsRecorder (cacheSetter hash attrs) d (maxRows attrs)) cs)) j =
          (fst (rr_run (newRowsRecorder (cacheSetter hash attrs) d (maxRows attrs)) cs),
           j\<lparr>stats := (stats j)\<lparr>Errors := Errors (stats j) + 1\<rparr>,
             calls := calls j
               @ [CallSet hash \<lparr>Cols = (if DoColumns \<in> set cs then dr_columns d else []),
                                Rows = rows_read (snd (dr_run d cs))\<rparr> (ttl_duration attrs)]
               @ (if onErr j then [CallOnErr (Wrap ''Cache.Set failed: '' e)] else [])\<rparr>,
           None))"
    using rr_Close_set_failed [OF rng] by blast
  have close: "(\<forall>r j. snd (snd (rr_Close r j)) = dr_close (dr r)
          \<and> dr (fst (rr_Close r j)) = dr r \<and> item (fst (rr_Close r j)) = item r)"
    by (simp add: rr_Close_def split: option.splits)
  have transp: "(\<forall>s d m cs. snd (rr_run (newRowsRecorder s d m) cs) = snd (dr_run d cs)
          \<and> snd (rr_Columns (fst (rr_run (newRowsRecorder s d m) cs))) = dr_columns d)"
  proof (intro allI)
    fix s d m cs
    show "snd (rr_run (newRowsRecorder s d m) cs) = snd (dr_run d cs)
          \<and> snd (rr_Columns (fst (rr_run (newRowsRecorder s d m) cs))) = dr_columns d"
      using rr_run_transparent [of "newRowsRecorder s d m" cs]
        rr_run_frame [of "newRowsRecorder s d m" cs]
      by (simp add: newRowsRecorder_def rr_Columns_def)
  qed
  from hashfail getfail setfail close transp show ?thesis by (intro conjI)
qed

theorem cache_failures_do_not_fail_query_witness:
  "getAttrs demo_query = Some \<lparr>ttl = 5, maxRows = 10\<rparr>
   \<and> ConnQueryContext (demo_interceptor (\<lambda>k. (None, False, None)) ([], Some (Err ''some error'')) None)
        (\<lambda>q a. QueryRows (demo_rows None)) demo_query demo_args
     = ((demo_interceptor (\<lambda>k. (None, False, None)) ([], Some (Err ''some error'')) None)
          \<lparr>stats := \<lparr>Hits = 0, Misses = 0, Errors = 1\<rparr>,
           calls := [CallHashFunc demo_query demo_args,
                     CallOnErr (Wrap ''HashFunc failed: '' (Err ''some error'')),
                     CallConnQuery demo_query demo_args]\<rparr>,
        LiveRows (demo_rows None), None)
   \<and> StmtQueryContext (demo_interceptor (\<lambda>k. (None, True, Some (Err ''some error''))) (''key'', None) None)
        (\<lambda>a. QueryRows (demo_rows None)) demo_query demo_args
     = ((demo_interceptor (\<lambda>k. (None, True, Some (Err ''some error''))) (''key'', None) None)
          \<lparr>stats := \<lparr>Hits = 0, Misses = 0, Errors = 1\<rparr>,
           calls := [CallHashFunc demo_query demo_args, CallGet ''key'',
                     CallOnErr (Wrap ''Cache.Get failed: '' (Err ''some error'')),
                     CallStmtQuery demo_args]\<rparr>,
        RecorderRows (newRowsRecorder (cacheSetter ''key'' \<lparr>ttl = 5, maxRows = 10\<rparr>) (demo_rows None) 10),
        None)
   \<and> rr_Close (fst (rr_run (newRowsRecorder (cacheSetter ''key'' \<lparr>ttl = 5, maxRows = 10\<rparr>)
                               (demo_rows None) 10) demo_calls))
        (demo_interceptor (\<lambda>k. (None, False, None)) (''key'', None) (Some (Err ''set failed'')))
     = (fst (rr_run (newRowsRecorder (cacheSetter ''key'' \<lparr>ttl = 5, maxRows = 10\<rparr>)
                               (demo_rows None) 10) demo_calls),
        (demo_interceptor (\<lambda>k. (None, False, None)) (''key'', None) (Some (Err ''set failed'')))
          \<lparr>stats := \<lparr>Hits = 0, Misses = 0, Errors = 1\<rparr>,
           calls := [CallSet ''key'' demo_item 5000000000,
                     CallOnErr (Wrap ''Cache.Set failed: '' (Err ''set failed''))]\<rparr>,
        None)"
proof -
  let ?i = "demo_interceptor (\<lambda>k. (None, False, None)) ([], Some (Err ''some error'')) None"
  let ?j = "demo_interceptor (\<lambda>k. (None, True, Some (Err ''some error''))) (''key'', None) None"
  let ?k = "demo_interceptor (\<lambda>k. (None, False, None)) (''key'', None) (Some (Err ''set failed''))"
  let ?L = "[([VString ''Alice''], None), ([VString ''Bob''], None), ([VString ''Bob''], Some EOF)]"
  have h: "\<not> disabled ?i" "hashFunc ?i demo_query demo_args = ([], Some (Err ''some error''))"
    "\<not> disabled ?j" "hashFunc ?j demo_query demo_args = (''key'', None)"
    "c_Get ?j ''key'' = (None, True, Some (Err ''some error''))"
    by (simp_all add: demo_interceptor_def)
  note t = cache_failures_do_not_fail_query [OF h(1) getAttrs_demo_query,
      of demo_args "\<lambda>q a. QueryRows (demo_rows None)" "\<lambda>a. QueryRows (demo_rows None)"]
  note u = cache_failures_do_not_fail_query [OF h(3) getAttrs_demo_query,
      of demo_args "\<lambda>q a. QueryRows (demo_rows None)" "\<lambda>a. QueryRows (demo_rows None)"]
  from t h(2)
  have a: "ConnQueryContext ?i (\<lambda>q a. QueryRows (demo_rows None)) demo_query demo_args =
          (?i\<lparr>stats := (stats ?i)\<lparr>Errors := Errors (stats ?i) + 1\<rparr>,
             calls := calls ?i @ [CallHashFunc demo_query demo_args]
                        @ (if onErr ?i then [CallOnErr (Wrap ''HashFunc failed: '' (Err ''some error''))] else [])
                        @ [CallConnQuery demo_query demo_args]\<rparr>,
           rows_of (QueryRows (demo_rows None)), err_of (QueryRows (demo_rows None)))"
    by blast
  from u h(4,5)
  have b: "StmtQueryContext ?j (\<lambda>a. QueryRows (demo_rows None)) demo_query demo_args =
          (?j\<lparr>stats := (stats ?j)\<lparr>Errors := Errors (stats ?j) + 1\<rparr>,
             calls := calls ?j @ [CallHashFunc demo_query demo_args, CallGet ''key'']
                        @ (if onErr ?j then [CallOnErr (Wrap ''Cache.Get failed: '' (Err ''some error''))] else [])
                        @ [CallStmtQuery demo_args]\<rparr>,
           (case QueryRows (demo_rows None) of
             QueryRows d \<Rightarrow>
               RecorderRows (newRowsRecorder (cacheSetter ''key'' \<lparr>ttl = 5, maxRows = 10\<rparr>) d
                  (maxRows \<lparr>ttl = 5, maxRows = 10\<rparr>))
           | QueryError rows err \<Rightarrow> rows_of (QueryRows (demo_rows None))),
           err_of (QueryRows (demo_rows None)))"
    by blast
  have cols: "(if DoColumns \<in> set demo_calls then dr_columns (demo_rows None) else []) = [''name'']"
    by (simp add: demo_calls_def demo_rows_def)
  have pre: "dr_close (demo_rows None) = None \<and> saw_EOF (snd (dr_run (demo_rows None) demo_calls))
        \<and> \<not> saw_error (snd (dr_run (demo_rows None) demo_calls))
        \<and> int (length (rows_read (snd (dr_run (demo_rows None) demo_calls))))
            \<le> maxRows \<lparr>ttl = 5, maxRows = 10\<rparr>
        \<and> c_Set ?k ''key'' \<lparr>Cols = (if DoColumns \<in> set demo_calls then dr_columns (demo_rows None) else []),
                       Rows = rows_read (snd (dr_run (demo_rows None) demo_calls))\<rparr>
             (ttl_duration \<lparr>ttl = 5, maxRows = 10\<rparr>) = Some (Err ''set failed'')"
    by (simp add: demo_run demo_rows_read) (simp add: demo_rows_def demo_interceptor_def)
  from t have "\<forall>hash d cs j e.
        dr_close d = None \<and> saw_EOF (snd (dr_run d cs)) \<and> \<not> saw_error (snd (dr_run d cs))
        \<and> int (length (rows_read (snd (dr_run d cs)))) \<le> maxRows \<lparr>ttl = 5, maxRows = 10\<rparr>
        \<and> c_Set j hash \<lparr>Cols = (if DoColumns \<in> set cs then dr_columns d else []),
                       Rows = rows_read (snd (dr_run d cs))\<rparr> (ttl_duration \<lparr>ttl = 5, maxRows = 10\<rparr>) = Some e \<longrightarrow>
        rr_Close (fst (rr_run (newRowsRecorder (cacheSetter hash \<lparr>ttl = 5, maxRows = 10\<rparr>) d (maxRows \<lparr>ttl = 5, maxRows = 10\<rparr>)) cs)) j =
          (fst (rr_run (newRowsRecorder (cacheSetter hash \<lparr>ttl = 5, maxRows = 10\<rparr>) d (maxRows \<lparr>ttl = 5, maxRows = 10\<rparr>)) cs),
           j\<lparr>stats := (stats j)\<lparr>Errors := Errors (stats j) + 1\<rparr>,
             calls := calls j
               @ [CallSet hash \<lparr>Cols = (if DoColumns \<in> set cs then dr_columns d else []),
                                Rows = rows_read (snd (dr_run d cs))\<rparr> (ttl_duration \<lparr>ttl = 5, maxRows = 10\<rparr>)]
               @ (if onErr j then [CallOnErr (Wrap ''Cache.Set failed: '' e)] else [])\<rparr>,
           None)"
    by blast
  from this [rule_format, OF pre]
  have c: "rr_Close (fst (rr_run (newRowsRecorder (cacheSetter ''key'' \<lparr>ttl = 5, maxRows = 10\<rparr>)
                               (demo_rows None) 10) demo_calls)) ?k
     = (fst (rr_run (newRowsRecorder (cacheSetter ''key'' \<lparr>ttl = 5, maxRows = 10\<rparr>)
                               (demo_rows None) 10) demo_calls),
        ?k\<lparr>stats := \<lparr>Hits = 0, Misses = 0, Errors = 1\<rparr>,
           calls := [CallSet ''key'' demo_item 5000000000,
                     CallOnErr (Wrap ''Cache.Set failed: '' (Err ''set failed''))]\<rparr>,
        None)"
    unfolding cols demo_run demo_rows_read(1) demo_ttl
    by (simp add: demo_interceptor_def demo_item_def)
  show ?thesis
    unfolding a b c using getAttrs_demo_query
    by (simp add: demo_interceptor_def rows_of_def err_of_def)
qed

subsection \<open>C5: directive values\<close>

text \<open>
  Claim C5, as amended. A directive name followed by a space and anything that does
  not start with a decimal digit (a minus sign included) is no match of the pattern.
  A text with fewer than two matching positions yields no policy. Every policy the
  parser returns has values between 0 and \<open>2^63 - 1\<close>. When the first two matches in
  the text, reading left to right, are one \<open>@cache-ttl\<close> and one \<open>@cache-max-rows\<close>
  directive in either order (no match starts in the text before the first or between
  the two, and each is followed by its whole digit run), the parser returns the policy
  made of the two digit runs' values, each capped at \<open>2^63 - 1\<close> when the run does not
  fit an \<open>int\<close>. A stretch of text without \<open>@\<close> holds no start of a match.
\<close>

theorem directive_values_unvalidated_but_digits_only:
  "(t = [] \<or> \<not> is_digit (hd t) \<longrightarrow>
      match_here (''@cache-ttl '' @ t) = None \<and> match_here (''@cache-max-rows '' @ t) = None)
   \<and> (match_count q < 2 \<longrightarrow> getAttrs q = None)
   \<and> (getAttrs q = Some a \<longrightarrow>
        0 \<le> ttl a \<and> ttl a \<le> 2 ^ 63 - 1 \<and> 0 \<le> maxRows a \<and> maxRows a \<le> 2 ^ 63 - 1)
   \<and> (no_match_within pre (''@cache-ttl '' @ ds1 @ mid @ ''@cache-max-rows '' @ ds2 @ post)
        \<and> no_match_within mid (''@cache-max-rows '' @ ds2 @ post)
        \<and> (mid = [] \<or> \<not> is_digit (hd mid)) \<and> (post = [] \<or> \<not> is_digit (hd post))
        \<and> ds1 \<noteq> [] \<and> list_all is_digit ds1 \<and> ds2 \<noteq> [] \<and> list_all is_digit ds2 \<longrightarrow>
        getAttrs (pre @ ''@cache-ttl '' @ ds1 @ mid @ ''@cache-max-rows '' @ ds2 @ post)
           = Some \<lparr>ttl = min (int (digits_value ds1)) (2 ^ 63 - 1),
                   maxRows = min (int (digits_value ds2)) (2 ^ 63 - 1)\<rparr>)
   \<and> (no_match_within pre (''@cache-max-rows '' @ ds2 @ mid @ ''@cache-ttl '' @ ds1 @ post)
        \<and> no_match_within mid (''@cache-ttl '' @ ds1 @ post)
        \<and> (mid = [] \<or> \<not> is_digit (hd mid)) \<and> (post = [] \<or> \<not> is_digit (hd post))
        \<and> ds1 \<noteq> [] \<and> list_all is_digit ds1 \<and> ds2 \<noteq> [] \<and> list_all is_digit ds2 \<longrightarrow>
        getAttrs (pre @ ''@cache-max-rows '' @ ds2 @ mid @ ''@cache-ttl '' @ ds1 @ post)
           = Some \<lparr>ttl = min (int (digits_value ds1)) (2 ^ 63 - 1),
                   maxRows = min (int (digits_value ds2)) (2 ^ 63 - 1)\<rparr>)
   \<and> (CHR ''@'' \<notin> set pre \<longrightarrow> no_match_within pre rest)"
proof (intro conjI impI)
  assume "t = [] \<or> \<not> is_digit (hd t)"
  then show "match_here (''@cache-ttl '' @ t) = None" "match_here (''@cache-max-rows '' @ t) = None"
    by (rule match_here_no_digit)+
next
  assume "match_count q < 2"
  then show "getAttrs q = None" by (rule getAttrs_needs_two_matches)
next
  assume "getAttrs q = Some a"
  from getAttrs_range [OF this]
  show "0 \<le> ttl a" "ttl a \<le> 2 ^ 63 - 1" "0 \<le> maxRows a" "maxRows a \<le> 2 ^ 63 - 1"
    by (simp_all add: in_range_def)
next
  assume a: "no_match_within pre (''@cache-ttl '' @ ds1 @ mid @ ''@cache-max-rows '' @ ds2 @ post)
        \<and> no_match_within mid (''@cache-max-rows '' @ ds2 @ post)
        \<and> (mid = [] \<or> \<not> is_digit (hd mid)) \<and> (post = [] \<or> \<not> is_digit (hd post))
        \<and> ds1 \<noteq> [] \<and> list_all is_digit ds1 \<and> ds2 \<noteq> [] \<and> list_all is_digit ds2"
  then have b: "no_match_within pre (''@cache-ttl '' @ ds1 @ mid @ ''@cache-max-rows '' @ ds2 @ post)"
    "no_match_within mid (''@cache-max-rows '' @ ds2 @ post)"
    "mid = [] \<or> \<not> is_digit (hd mid)"
    "post = [] \<or> \<not> is_digit (hd post)" "ds1 \<noteq> []" "list_all is_digit ds1" "ds2 \<noteq> []"
    "list_all is_digit ds2" by blast+
  show "getAttrs (pre @ ''@cache-ttl '' @ ds1 @ mid @ ''@cache-max-rows '' @ ds2 @ post)
           = Some \<lparr>ttl = min (int (digits_value ds1)) (2 ^ 63 - 1),
                   maxRows = min (int (digits_value ds2)) (2 ^ 63 - 1)\<rparr>"
    by (rule getAttrs_first_two_matches [OF b])
next
  assume a: "no_match_within pre (''@cache-max-rows '' @ ds2 @ mid @ ''@cache-ttl '' @ ds1 @ post)
        \<and> no_match_within mid (''@cache-ttl '' @ ds1 @ post)
        \<and> (mid = [] \<or> \<not> is_digit (hd mid)) \<and> (post = [] \<or> \<not> is_digit (hd post))
        \<and> ds1 \<noteq> [] \<and> list_all is_digit ds1 \<and> ds2 \<noteq> [] \<and> list_all is_digit ds2"
  then have b: "no_match_within pre (''@cache-max-rows '' @ ds2 @ mid @ ''@cache-ttl '' @ ds1 @ post)"
    "no_match_within mid (''@cache-ttl '' @ ds1 @ post)"
    "mid = [] \<or> \<not> is_digit (hd mid)"
    "post = [] \<or> \<not> is_digit (hd post)" "ds1 \<noteq> []" "list_all is_digit ds1" "ds2 \<noteq> []"
    "list_all is_digit ds2" by blast+
  show "getAttrs (pre @ ''@cache-max-rows '' @ ds2 @ mid @ ''@cache-ttl '' @ ds1 @ post)
           = Some \<lparr>ttl = min (int (digits_value ds1)) (2 ^ 63 - 1),
                   maxRows = min (int (digits_value ds2)) (2 ^ 63 - 1)\<rparr>"
    by (rule getAttrs_first_two_matches_swapped [OF b])
next
  assume "CHR ''@'' \<notin> set pre"
  then show "no_match_within pre rest" by (rule no_at_no_match_within)
qed

theorem directive_values_unvalidated_but_digits_only_witness:
  "match_here (''@cache-ttl '' @ ''-30'') = None
   \<and> match_count (''-- @cache-ttl -30'' @ [CHR 0x0A] @ ''-- @cache-max-rows 10'' @ [CHR 0x0A]
        @ ''SELECT name FROM users WHERE age > ?'') < 2
   \<and> getAttrs (''-- @cache-ttl -30'' @ [CHR 0x0A] @ ''-- @cache-max-rows 10'' @ [CHR 0x0A]
        @ ''SELECT name FROM users WHERE age > ?'') = None
   \<and> getAttrs (''SELECT 1 WHERE email = $$a@b.c$$ -- '' @ ''@cache-ttl '' @ ''99999999999999999999''
        @ '' -- @cache-ttl -30 '' @ ''@cache-max-rows '' @ ''007'' @ ''x'')
       = Some \<lparr>ttl = 9223372036854775807, maxRows = 7\<rparr>"
proof -
  have d: "list_all is_digit ''99999999999999999999''" "list_all is_digit ''007''"
    "\<not> is_digit (hd '' -- @cache-ttl -30 '')" "\<not> is_digit (hd ''x'')" "\<not> is_digit (hd ''-30'')"
    by (simp_all add: is_digit_def)
  have v: "digits_value ''99999999999999999999'' = 99999999999999999999" "digits_value ''007'' = 7"
    by (simp_all add: digits_value_def digit_val_def)
  from directive_values_unvalidated_but_digits_only [of "''-30''"
      "''-- @cache-ttl -30'' @ [CHR 0x0A] @ ''-- @cache-max-rows 10'' @ [CHR 0x0A]
        @ ''SELECT name FROM users WHERE age > ?''" _ "''SELECT 1 WHERE email = $$a@b.c$$ -- ''"
      "''99999999999999999999''" "'' -- @cache-ttl -30 ''" "''007''" "''x''"]
    negative_ttl_query_count d email_query_unmatched
  show ?thesis unfolding v by simp
qed

text \<open>
  Claim C5 as stated fails: with \<open>@cache-ttl -30\<close> and a valid \<open>@cache-max-rows\<close> the parser
  returns no policy, although \<open>strconv.Atoi\<close> alone would read \<open>-30\<close> as \<open>-30\<close>.
\<close>

theorem negative_ttl_rejected_counterexample:
  "getAttrs (''-- @cache-ttl -30'' @ [CHR 0x0A] @ ''-- @cache-max-rows 10'' @ [CHR 0x0A]
      @ ''SELECT name FROM users WHERE age > ?'') = None
   \<and> fst (Atoi ''-30'') = - 30"
  by code_simp

subsection \<open>C6: an error of the underlying Close\<close>

text \<open>
  Claim C6, as amended. When the underlying cursor's \<open>Close\<close> returns an error, the
  adapter's \<open>Close\<close> returns that error to its caller, marks the adapter as having seen
  an error, and never commits: the interceptor is left as it was (no \<open>Set\<close> call, no
  counter changed), whatever the caller read before, also when end-of-data was reached
  without a read error and within the max-row bound.
\<close>

theorem close_error_suppresses_commit:
  assumes "dr_close (dr r) = Some e"
  shows "rr_Close (fst (rr_run r cs)) j = ((fst (rr_run r cs))\<lparr>gotErr := True\<rparr>, j, Some e)"
proof -
  have "dr_close (dr (fst (rr_run r cs))) = Some e"
    using rr_run_frame [of r cs] assms by simp
  then show ?thesis by (simp add: rr_Close_def)
qed

theorem close_error_suppresses_commit_witness:
  "dr_close (dr (newRowsRecorder (cacheSetter ''key'' \<lparr>ttl = 30, maxRows = 10\<rparr>)
                   (demo_rows (Some (Err ''close failed''))) 10)) = Some (Err ''close failed'')
   \<and> snd (rr_Close (fst (rr_run (newRowsRecorder (cacheSetter ''key'' \<lparr>ttl = 30, maxRows = 10\<rparr>)
                   (demo_rows (Some (Err ''close failed''))) 10) demo_calls))
           (demo_interceptor (\<lambda>k. (None, False, None)) (''key'', None) None))
      = (demo_interceptor (\<lambda>k. (None, False, None)) (''key'', None) None, Some (Err ''close failed''))"
proof -
  let ?r = "newRowsRecorder (cacheSetter ''key'' \<lparr>ttl = 30, maxRows = 10\<rparr>)
                   (demo_rows (Some (Err ''close failed''))) 10"
  have h: "dr_close (dr ?r) = Some (Err ''close failed'')"
    by (simp add: newRowsRecorder_def demo_rows_def)
  from close_error_suppresses_commit [OF h, of demo_calls
      "demo_interceptor (\<lambda>k. (None, False, None)) (''key'', None) None"] h
  show ?thesis by simp
qed

text \<open>
  Claim C6 as stated fails: after reading both rows and end-of-data, with no read error
  and within the bound, the adapter's flags allow the commit, yet with a failing
  underlying \<open>Close\<close> no \<open>Set\<close> call is made; the same reads with a clean \<open>Close\<close> commit.
\<close>

theorem commit_skipped_after_clean_read_counterexample:
  "gotEOF (fst (rr_run (newRowsRecorder (cacheSetter ''key'' \<lparr>ttl = 30, maxRows = 10\<rparr>)
                   (demo_rows (Some (Err ''close failed''))) 10) demo_calls))
   \<and> \<not> gotErr (fst (rr_run (newRowsRecorder (cacheSetter ''key'' \<lparr>ttl = 30, maxRows = 10\<rparr>)
                   (demo_rows (Some (Err ''close failed''))) 10) demo_calls))
   \<and> \<not> maxRowsHit (fst (rr_run (newRowsRecorder (cacheSetter ''key'' \<lparr>ttl = 30, maxRows = 10\<rparr>)
                   (demo_rows (Some (Err ''close failed''))) 10) demo_calls))
   \<and> Rows (item (fst (rr_run (newRowsRecorder (cacheSetter ''key'' \<lparr>ttl = 30, maxRows = 10\<rparr>)
                   (demo_rows (Some (Err ''close failed''))) 10) demo_calls)))
       = [[VString ''Alice''], [VString ''Bob'']]
   \<and> calls (fst (snd (rr_Close (fst (rr_run (newRowsRecorder (cacheSetter ''key'' \<lparr>ttl = 30, maxRows = 10\<rparr>)
                   (demo_rows (Some (Err ''close failed''))) 10) demo_calls))
           (demo_interceptor (\<lambda>k. (None, False, None)) (''key'', None) None)))) = []
   \<and> calls (fst (snd (rr_Close (fst (rr_run (newRowsRecorder (cacheSetter ''key'' \<lparr>ttl = 30, maxRows = 10\<rparr>)
                   (demo_rows None) 10) demo_calls))
           (demo_interceptor (\<lambda>k. (None, False, None)) (''key'', None) None))))
       = [CallSet ''key'' demo_item 30000000000]"
  by (simp add: newRowsRecorder_def demo_calls_def demo_rows_def rr_Next_def dr_Next_def
      rr_Columns_def rr_Close_def demo_interceptor_def cacheSetter_def record_call_def
      ttl_duration_def demo_item_def)

subsection \<open>C7: no policy, no caching\<close>

text \<open>
  Claim C7. When the interceptor is disabled or the query text yields no policy, both
  entry points return what the wrapped driver returned, and the only thing that
  happened is the one call to the wrapped driver: no key was computed, neither \<open>Get\<close>
  nor \<open>Set\<close> was called, the hook was not called, and the three counters are as before.
\<close>

theorem passthrough_without_policy:
  assumes "disabled i \<or> getAttrs query = None"
  shows "ConnQueryContext i conn query args =
           (i\<lparr>calls := calls i @ [CallConnQuery query args]\<rparr>,
            rows_of (conn query args), err_of (conn query args))
       \<and> StmtQueryContext i sconn query args =
           (i\<lparr>calls := calls i @ [CallStmtQuery args]\<rparr>,
            rows_of (sconn args), err_of (sconn args))"
  using assms
  by (auto simp: ConnQueryContext_def StmtQueryContext_def queryContext_def record_call_def)

theorem passthrough_without_policy_witness:
  "getAttrs ''SELECT name FROM users WHERE age > ?'' = None
   \<and> ConnQueryContext (demo_interceptor (\<lambda>k. (None, False, None)) (''key'', None) None)
        (\<lambda>q a. QueryRows (demo_rows None)) ''SELECT name FROM users WHERE age > ?'' demo_args
     = ((demo_interceptor (\<lambda>k. (None, False, None)) (''key'', None) None)
          \<lparr>calls := [CallConnQuery ''SELECT name FROM users WHERE age > ?'' demo_args]\<rparr>,
        LiveRows (demo_rows None), None)
   \<and> StmtQueryContext ((demo_interceptor (\<lambda>k. (None, False, None)) (''key'', None) None)\<lparr>disabled := True\<rparr>)
        (\<lambda>a. QueryRows (demo_rows None)) demo_query demo_args
     = ((demo_interceptor (\<lambda>k. (None, False, None)) (''key'', None) None)
          \<lparr>disabled := True, calls := [CallStmtQuery demo_args]\<rparr>,
        LiveRows (demo_rows None), None)"
  using passthrough_without_policy [OF disjI2 [OF getAttrs_plain_query],
      of "demo_interceptor (\<lambda>k. (None, False, None)) (''key'', None) None"
         "\<lambda>q a. QueryRows (demo_rows None)" demo_args "\<lambda>a. QueryRows (demo_rows None)"]
    passthrough_without_policy [of "(demo_interceptor (\<lambda>k. (None, False, None)) (''key'', None) None)\<lparr>disabled := True\<rparr>"
         demo_query "\<lambda>q a. QueryRows (demo_rows None)" demo_args "\<lambda>a. QueryRows (demo_rows None)"]
    getAttrs_plain_query
  by (simp add: demo_interceptor_def rows_of_def err_of_def)

subsection \<open>C8: the default key\<close>



subsection \<open>C9: counters under concurrent callers\<close>

text \<open>
  Claim C9, as amended. In whatever order the atomic steps of concurrent callers take
  effect, afterwards each counter is its initial value plus the number of its
  increments (modulo \<open>2^64\<close>) and nothing else of the interceptor has changed; two
  orders of the same steps end in the same counters. A \<open>Stats()\<close> call whose loads are
  interleaved with increments returns for each counter the value it held at its own
  load: the hits counted before the first load, the misses counted before the second,
  the errors counted before the third. When no increment takes effect between the
  three loads, the result is the value of the three counters at that moment.
\<close>

theorem counters_exact_snapshot_per_counter:
  "fst (run_schedule ops (i, s)) =
     i\<lparr>stats := \<lparr>Hits = Hits (stats i) + of_nat (count_list ops AddHits),
                  Misses = Misses (stats i) + of_nat (count_list ops AddMisses),
                  Errors = Errors (stats i) + of_nat (count_list ops AddErrors)\<rparr>\<rparr>
   \<and> ((\<forall>op. count_list ops' op = count_list ops op) \<longrightarrow>
        stats (fst (run_schedule ops' (i, s))) = stats (fst (run_schedule ops (i, s))))
   \<and> (list_all is_add A \<and> list_all is_add B \<and> list_all is_add C \<and> list_all is_add D \<longrightarrow>
        snd (run_schedule (A @ [LoadHits] @ B @ [LoadMisses] @ C @ [LoadErrors] @ D) (i, s)) =
          \<lparr>Hits = Hits (stats i) + of_nat (count_list A AddHits),
           Misses = Misses (stats i) + of_nat (count_list (A @ B) AddMisses),
           Errors = Errors (stats i) + of_nat (count_list (A @ B @ C) AddErrors)\<rparr>
      \<and> snd (run_schedule (A @ [LoadHits, LoadMisses, LoadErrors] @ D) (i, s)) =
          stats (fst (run_schedule A (i, s))))"
proof (intro conjI impI)
  show "fst (run_schedule ops (i, s)) =
     i\<lparr>stats := \<lparr>Hits = Hits (stats i) + of_nat (count_list ops AddHits),
                  Misses = Misses (stats i) + of_nat (count_list ops AddMisses),
                  Errors = Errors (stats i) + of_nat (count_list ops AddErrors)\<rparr>\<rparr>"
    by (rule run_schedule_counters)
next
  assume "\<forall>op. count_list ops' op = count_list ops op"
  then show "stats (fst (run_schedule ops' (i, s))) = stats (fst (run_schedule ops (i, s)))"
    by (simp add: run_schedule_counters)
next
  assume a: "list_all is_add A \<and> list_all is_add B \<and> list_all is_add C \<and> list_all is_add D"
  then show "snd (run_schedule (A @ [LoadHits] @ B @ [LoadMisses] @ C @ [LoadErrors] @ D) (i, s)) =
          \<lparr>Hits = Hits (stats i) + of_nat (count_list A AddHits),
           Misses = Misses (stats i) + of_nat (count_list (A @ B) AddMisses),
           Errors = Errors (stats i) + of_nat (count_list (A @ B @ C) AddErrors)\<rparr>"
    by (intro Stats_snapshot) simp_all
  from a have "snd (run_schedule (A @ [LoadHits] @ [] @ [LoadMisses] @ [] @ [LoadErrors] @ D) (i, s)) =
          \<lparr>Hits = Hits (stats i) + of_nat (count_list A AddHits),
           Misses = Misses (stats i) + of_nat (count_list (A @ []) AddMisses),
           Errors = Errors (stats i) + of_nat (count_list (A @ [] @ []) AddErrors)\<rparr>"
    by (intro Stats_snapshot) simp_all
  then show "snd (run_schedule (A @ [LoadHits, LoadMisses, LoadErrors] @ D) (i, s)) =
          stats (fst (run_schedule A (i, s)))"
    by (simp add: run_schedule_counters)
qed

theorem counters_exact_snapshot_per_counter_witness:
  "list_all is_add [AddHits] \<and> list_all is_add [AddMisses, AddErrors] \<and> list_all is_add []
   \<and> stats (fst (run_schedule [AddHits, LoadHits, AddMisses, AddErrors, LoadMisses, LoadErrors, AddHits]
        (demo_interceptor (\<lambda>k. (None, False, None)) (''key'', None) None,
         \<lparr>Hits = 0, Misses = 0, Errors = 0\<rparr>)))
      = \<lparr>Hits = 2, Misses = 1, Errors = 1\<rparr>
   \<and> snd (run_schedule [AddHits, LoadHits, AddMisses, AddErrors, LoadMisses, LoadErrors, AddHits]
        (demo_interceptor (\<lambda>k. (None, False, None)) (''key'', None) None,
         \<lparr>Hits = 0, Misses = 0, Errors = 0\<rparr>))
      = \<lparr>Hits = 1, Misses = 1, Errors = 1\<rparr>"
proof -
  let ?i = "demo_interceptor (\<lambda>k. (None, False, None)) (''key'', None) None"
  have h: "list_all is_add [AddHits] \<and> list_all is_add [AddMisses, AddErrors]
      \<and> list_all is_add [] \<and> list_all is_add [AddHits]"
    by (simp add: is_add_def)
  note t = counters_exact_snapshot_per_counter [of
      "[AddHits, LoadHits, AddMisses, AddErrors, LoadMisses, LoadErrors, AddHits]" ?i
      "\<lparr>Hits = 0, Misses = 0, Errors = 0\<rparr>" _ "[AddHits]" "[AddMisses, AddErrors]" "[]" "[AddHits]"]
  from t have a: "fst (run_schedule [AddHits, LoadHits, AddMisses, AddErrors, LoadMisses, LoadErrors, AddHits]
        (?i, \<lparr>Hits = 0, Misses = 0, Errors = 0\<rparr>)) =
     ?i\<lparr>stats := \<lparr>Hits = Hits (stats ?i) + of_nat (count_list [AddHits, LoadHits, AddMisses, AddErrors, LoadMisses, LoadErrors, AddHits] AddHits),
                  Misses = Misses (stats ?i) + of_nat (count_list [AddHits, LoadHits, AddMisses, AddErrors, LoadMisses, LoadErrors, AddHits] AddMisses),
                  Errors = Errors (stats ?i) + of_nat (count_list [AddHits, LoadHits, AddMisses, AddErrors, LoadMisses, LoadErrors, AddHits] AddErrors)\<rparr>\<rparr>"
    by blast
  from t h have b: "snd (run_schedule ([AddHits] @ [LoadHits] @ [AddMisses, AddErrors] @ [LoadMisses] @ [] @ [LoadErrors] @ [AddHits])
        (?i, \<lparr>Hits = 0, Misses = 0, Errors = 0\<rparr>)) =
          \<lparr>Hits = Hits (stats ?i) + of_nat (count_list [AddHits] AddHits),
           Misses = Misses (stats ?i) + of_nat (count_list ([AddHits] @ [AddMisses, AddErrors]) AddMisses),
           Errors = Errors (stats ?i) + of_nat (count_list ([AddHits] @ [AddMisses, AddErrors] @ []) AddErrors)\<rparr>"
    by blast
  from a b h show ?thesis by (simp add: demo_interceptor_def)
qed

text \<open>
  Claim C9 as stated fails for the snapshot: \<open>Stats()\<close> loads the hit counter, then one
  query counts a hit and another a miss, then \<open>Stats()\<close> loads the other two counters.
  It returns 0 hits, 1 miss and 0 errors, which the three counters never held together.
\<close>

theorem torn_snapshot_counterexample:
  "snd (run_schedule [LoadHits, AddHits, AddMisses, LoadMisses, LoadErrors]
        (demo_interceptor (\<lambda>k. (None, False, None)) (''key'', None) None,
         \<lparr>Hits = 0, Misses = 0, Errors = 0\<rparr>))
      = \<lparr>Hits = 0, Misses = 1, Errors = 0\<rparr>
   \<and> counter_states [LoadHits, AddHits, AddMisses, LoadMisses, LoadErrors]
        (demo_interceptor (\<lambda>k. (None, False, None)) (''key'', None) None,
         \<lparr>Hits = 0, Misses = 0, Errors = 0\<rparr>)
      = [\<lparr>Hits = 0, Misses = 0, Errors = 0\<rparr>, \<lparr>Hits = 0, Misses = 0, Errors = 0\<rparr>,
         \<lparr>Hits = 1, Misses = 0, Errors = 0\<rparr>, \<lparr>Hits = 1, Misses = 1, Errors = 0\<rparr>,
         \<lparr>Hits = 1, Misses = 1, Errors = 0\<rparr>, \<lparr>Hits = 1, Misses = 1, Errors = 0\<rparr>]
   \<and> \<lparr>Hits = 0, Misses = 1, Errors = 0\<rparr> \<notin> set (counter_states
        [LoadHits, AddHits, AddMisses, LoadMisses, LoadErrors]
        (demo_interceptor (\<lambda>k. (None, False, None)) (''key'', None) None,
         \<lparr>Hits = 0, Misses = 0, Errors = 0\<rparr>))"
  by (simp add: demo_interceptor_def add_Hits_def add_Misses_def)

subsection \<open>C10: a nil item on the hit path\<close>

text \<open>
  Claim C10. When \<open>Get\<close> returns \<open>found = true\<close> and no error, \<open>checkCache\<close> counts a hit and
  wraps the returned item pointer into the cached cursor without looking at it. The
  cursor's \<open>Columns\<close> and \<open>Next\<close> panic exactly when that pointer is nil; with an item, no
  sequence of \<open>Next\<close> calls panics.
\<close>

theorem nil_item_panics_on_hit_path:
  assumes "c_Get i hash = (it, True, None)"
  shows "checkCache i hash =
           (i\<lparr>stats := (stats i)\<lparr>Hits := Hits (stats i) + 1\<rparr>,
              calls := calls i @ [CallGet hash]\<rparr>,
            Some \<lparr>rc_Item = it, ptr = 0\<rparr>)
       \<and> (rc_Columns \<lparr>rc_Item = it, ptr = 0\<rparr> = Panic \<longleftrightarrow> it = None)
       \<and> (\<forall>dest. rc_Next \<lparr>rc_Item = it, ptr = 0\<rparr> dest = Panic \<longleftrightarrow> it = None)
       \<and> (it \<noteq> None \<longrightarrow> (\<forall>dests. rc_run \<lparr>rc_Item = it, ptr = 0\<rparr> dests \<noteq> Panic))"
proof -
  have "checkCache i hash =
           (i\<lparr>stats := (stats i)\<lparr>Hits := Hits (stats i) + 1\<rparr>,
              calls := calls i @ [CallGet hash]\<rparr>,
            Some \<lparr>rc_Item = it, ptr = 0\<rparr>)"
    using assms by (simp add: checkCache_def record_call_def add_Hits_def)
  moreover have "rc_Columns \<lparr>rc_Item = it, ptr = 0\<rparr> = Panic \<longleftrightarrow> it = None"
    by (simp add: rc_Columns_def split: option.splits)
  moreover have "\<forall>dest. rc_Next \<lparr>rc_Item = it, ptr = 0\<rparr> dest = Panic \<longleftrightarrow> it = None"
    by (simp add: rc_Next_def split: option.splits)
  moreover have "it \<noteq> None \<longrightarrow> (\<forall>dests. rc_run \<lparr>rc_Item = it, ptr = 0\<rparr> dests \<noteq> Panic)"
  proof (intro impI allI)
    fix dests assume "it \<noteq> None"
    then obtain x where "rc_Item \<lparr>rc_Item = it, ptr = 0\<rparr> = Some x" by auto
    from rc_run_from [OF this, of dests] show "rc_run \<lparr>rc_Item = it, ptr = 0\<rparr> dests \<noteq> Panic"
      by auto
  qed
  ultimately show ?thesis by blast
qed

theorem nil_item_panics_on_hit_path_witness:
  "c_Get (demo_interceptor (\<lambda>k. (None, True, None)) (''key'', None) None) ''key'' = (None, True, None)
   \<and> snd (checkCache (demo_interceptor (\<lambda>k. (None, True, None)) (''key'', None) None) ''key'')
       = Some \<lparr>rc_Item = None, ptr = 0\<rparr>
   \<and> rc_Columns \<lparr>rc_Item = None, ptr = 0\<rparr> = Panic
   \<and> rc_Next \<lparr>rc_Item = None, ptr = 0\<rparr> [VNil] = Panic"
proof -
  let ?i = "demo_interceptor (\<lambda>k. (None, True, None)) (''key'', None) None"
  have h: "c_Get ?i ''key'' = (None, True, None)" by (simp add: demo_interceptor_def)
  from nil_item_panics_on_hit_path [OF h] h show ?thesis by simp
qed

end
